theory Spec2Isabelle
  imports Complex_Main "HOL-Library.Word"
begin

unbundle bit_operations_syntax

section \<open>eqvnc: a VNC viewer on a rendering cluster\<close>

text \<open>
  A shallow embedding of \<^verbatim>\<open>eqvnc.cpp\<close>. C++ \<^verbatim>\<open>int\<close> values are mathematical
  integers whose arithmetic is checked against the 32-bit range (signed overflow is
  undefined behaviour in the source, an \<open>Overflow\<close> error here); \<^verbatim>\<open>unsigned int\<close>
  pixels are 32-bit words; an access to a \<^verbatim>\<open>std::vector\<close> outside its size is the
  error \<open>OutOfBounds\<close>. Single-precision \<^verbatim>\<open>float\<close> values are modelled by the real
  numbers they denote, and an operation whose result is not a finite number (a division
  by zero, a root of a negative number) is the error \<open>NonFinite\<close>, where the source
  goes on with an infinity or a NaN. Where the results are \<^verbatim>\<open>float\<close> values (the
  canvas rectangle, the drawing) rounding is not modelled; where they are truncated to
  pixels (the pointer events) every operation is rounded to binary32.
\<close>

subsection \<open>Types and errors\<close>

type_synonym float = real
type_synonym pixel = "32 word"

record rectangle_t =
  rect_x :: int
  rect_y :: int
  rect_w :: int
  rect_h :: int

datatype screen_t = screen_canvas | screen_wall | screen_cylinder

datatype error = Overflow | OutOfBounds | LengthError | BadStream | NonFinite

definition and_then :: "error + 'a \<Rightarrow> ('a \<Rightarrow> error + 'b) \<Rightarrow> error + 'b" where
  "and_then m f = (case m of Inl e \<Rightarrow> Inl e | Inr v \<Rightarrow> f v)"

lemma and_then_cong [fundef_cong]:
  "m = m' \<Longrightarrow> (\<And>v. m' = Inr v \<Longrightarrow> f v = f' v) \<Longrightarrow> and_then m f = and_then m' f'"
  by (cases m') (simp_all add: and_then_def)

lemma and_then_Inr [simp]: "and_then (Inr v) f = f v"
  by (simp add: and_then_def)

lemma and_then_Inl [simp]: "and_then (Inl e) f = Inl e"
  by (simp add: and_then_def)

text \<open>The range of a C++ \<^verbatim>\<open>int\<close>, and an \<^verbatim>\<open>int\<close> operation's result checked against it.\<close>

definition is_int :: "int \<Rightarrow> bool" where
  "is_int i \<longleftrightarrow> - (2 ^ 31) \<le> i \<and> i < 2 ^ 31"

definition c_int :: "int \<Rightarrow> error + int" where
  "c_int i = (if is_int i then Inr i else Inl Overflow)"

subsection \<open>The frame data and its stream\<close>

text \<open>
  \<^verbatim>\<open>class eq_frame_data\<close>: the desktop size, the canvas array (width, height and the
  relative rectangle x, y, w, h), the framebuffer of 32-bit BGRA pixels, row-major, and
  the rectangles changed since the last commit.
\<close>

record eq_frame_data =
  vnc_width :: int
  vnc_height :: int
  canvas :: "float list"
  vnc_framebuffer :: "pixel list"
  vnc_dirty_rectangles :: "rectangle_t list"

text \<open>
  A \<^verbatim>\<open>co::DataOStream\<close> is the sequence of the values written to it, each with the
  type of the \<^verbatim>\<open>operator<<\<close> that wrote it.
\<close>

datatype item = Int32 int | Floats "float list" | SizeT nat | UInt32 pixel

text \<open>
  The subscript \<^verbatim>\<open>vnc_framebuffer[y * vnc_width + x]\<close>: the \<^verbatim>\<open>int\<close> expression,
  converted to \<^verbatim>\<open>size_t\<close>, must be below the vector's size.
\<close>

definition pixel_index :: "int \<Rightarrow> int \<Rightarrow> int \<Rightarrow> nat \<Rightarrow> error + nat" where
  "pixel_index W x y len =
     and_then (c_int (y * W)) (\<lambda>m.
     and_then (c_int (m + x)) (\<lambda>i.
       if 0 \<le> i \<and> nat i < len then Inr (nat i) else Inl OutOfBounds))"

subsubsection \<open>\<^verbatim>\<open>eq_frame_data::getInstanceData\<close>\<close>

text \<open>The loop over \<open>x\<close>: \<^verbatim>\<open>for (int x = r.x; x < r.x + r.w; x++) os << vnc_framebuffer[...]\<close>.\<close>

function put_row :: "eq_frame_data \<Rightarrow> rectangle_t \<Rightarrow> int \<Rightarrow> int \<Rightarrow> item list \<Rightarrow> error + item list" where
  "put_row fd r y x os =
     and_then (c_int (rect_x r + rect_w r)) (\<lambda>xe.
       if x < xe then
         and_then (pixel_index (vnc_width fd) x y (length (vnc_framebuffer fd))) (\<lambda>i.
           put_row fd r y (x + 1) (os @ [UInt32 (vnc_framebuffer fd ! i)]))
       else Inr os)"
  by pat_completeness auto
termination
  by (relation "measure (\<lambda>(fd, r, y, x, os). nat (rect_x r + rect_w r - x))")
    (auto simp: c_int_def split: if_splits)

declare put_row.simps [simp del]

text \<open>The loop over \<open>y\<close>: \<^verbatim>\<open>for (int y = r.y; y < r.y + r.h; y++)\<close>.\<close>

function put_rows :: "eq_frame_data \<Rightarrow> rectangle_t \<Rightarrow> int \<Rightarrow> item list \<Rightarrow> error + item list" where
  "put_rows fd r y os =
     and_then (c_int (rect_y r + rect_h r)) (\<lambda>ye.
       if y < ye then
         and_then (put_row fd r y (rect_x r) os) (\<lambda>os'. put_rows fd r (y + 1) os')
       else Inr os)"
  by pat_completeness auto
termination
  by (relation "measure (\<lambda>(fd, r, y, os). nat (rect_y r + rect_h r - y))")
    (auto simp: c_int_def split: if_splits)

declare put_rows.simps [simp del]

text \<open>The loop over the dirty rectangles: the bounds of each, then its pixels.\<close>

fun put_rects :: "eq_frame_data \<Rightarrow> rectangle_t list \<Rightarrow> item list \<Rightarrow> error + item list" where
  "put_rects fd [] os = Inr os"
| "put_rects fd (r # rs) os =
     and_then
       (put_rows fd r (rect_y r)
          (os @ [Int32 (rect_x r), Int32 (rect_y r), Int32 (rect_w r), Int32 (rect_h r)]))
       (\<lambda>os'. put_rects fd rs os')"

definition getInstanceData :: "eq_frame_data \<Rightarrow> item list \<Rightarrow> error + item list" where
  "getInstanceData fd os =
     put_rects fd (vnc_dirty_rectangles fd)
       (os @ [Int32 (vnc_width fd), Int32 (vnc_height fd), Floats (canvas fd),
              SizeT (length (vnc_dirty_rectangles fd))])"

subsubsection \<open>\<^verbatim>\<open>eq_frame_data::applyInstanceData\<close>\<close>

text \<open>Reading a value of each type from a \<^verbatim>\<open>co::DataIStream\<close>.\<close>

fun get_int :: "item list \<Rightarrow> error + int \<times> item list" where
  "get_int (Int32 v # is) = Inr (v, is)"
| "get_int _ = Inl BadStream"

fun get_floats :: "nat \<Rightarrow> item list \<Rightarrow> error + float list \<times> item list" where
  "get_floats n (Floats c # is) = (if length c = n then Inr (c, is) else Inl BadStream)"
| "get_floats n _ = Inl BadStream"

fun get_size :: "item list \<Rightarrow> error + nat \<times> item list" where
  "get_size (SizeT n # is) = Inr (n, is)"
| "get_size _ = Inl BadStream"

fun get_pixel :: "item list \<Rightarrow> error + pixel \<times> item list" where
  "get_pixel (UInt32 p # is) = Inr (p, is)"
| "get_pixel _ = Inl BadStream"

text \<open>
  \<^verbatim>\<open>std::vector::resize\<close>: the first \<open>n\<close> elements are kept, new elements are
  value-initialised (zero).
\<close>

definition resize :: "nat \<Rightarrow> pixel list \<Rightarrow> pixel list" where
  "resize n v = take n v @ replicate (n - length v) 0"

text \<open>
  \<^verbatim>\<open>vnc_framebuffer.resize(w * h)\<close>: the \<^verbatim>\<open>int\<close> product converted to \<^verbatim>\<open>size_t\<close>; a
  negative product is a size beyond \<^verbatim>\<open>max_size()\<close>, and \<^verbatim>\<open>resize\<close> throws.
\<close>

definition resize_framebuffer :: "int \<Rightarrow> int \<Rightarrow> pixel list \<Rightarrow> error + pixel list" where
  "resize_framebuffer w h v =
     and_then (c_int (w * h)) (\<lambda>n.
       if n < 0 then Inl LengthError else Inr (resize (nat n) v))"

text \<open>The loop over \<open>x\<close>: \<^verbatim>\<open>for (int x = r.x; x < r.x + r.w; x++) is >> vnc_framebuffer[...]\<close>.\<close>

function get_row :: "int \<Rightarrow> rectangle_t \<Rightarrow> int \<Rightarrow> int \<Rightarrow> item list \<times> pixel list
    \<Rightarrow> error + item list \<times> pixel list" where
  "get_row W r y x (is, fb) =
     and_then (c_int (rect_x r + rect_w r)) (\<lambda>xe.
       if x < xe then
         and_then (pixel_index W x y (length fb)) (\<lambda>i.
         and_then (get_pixel is) (\<lambda>(p, is').
           get_row W r y (x + 1) (is', fb[i := p])))
       else Inr (is, fb))"
  by pat_completeness auto
termination
  by (relation "measure (\<lambda>(W, r, y, x, s). nat (rect_x r + rect_w r - x))")
    (auto simp: c_int_def split: if_splits)

declare get_row.simps [simp del]

function get_rows :: "int \<Rightarrow> rectangle_t \<Rightarrow> int \<Rightarrow> item list \<times> pixel list
    \<Rightarrow> error + item list \<times> pixel list" where
  "get_rows W r y s =
     and_then (c_int (rect_y r + rect_h r)) (\<lambda>ye.
       if y < ye then
         and_then (get_row W r y (rect_x r) s) (\<lambda>s'. get_rows W r (y + 1) s')
       else Inr s)"
  by pat_completeness auto
termination
  by (relation "measure (\<lambda>(W, r, y, s). nat (rect_y r + rect_h r - y))")
    (auto simp: c_int_def split: if_splits)

declare get_rows.simps [simp del]

text \<open>The loop \<^verbatim>\<open>for (size_t i = 0; i < n; i++)\<close>, by the number of rectangles still to read.\<close>

fun get_rects :: "int \<Rightarrow> nat \<Rightarrow> item list \<times> pixel list \<Rightarrow> error + item list \<times> pixel list" where
  "get_rects W 0 s = Inr s"
| "get_rects W (Suc n) (is, fb) =
     and_then (get_int is) (\<lambda>(x, is1).
     and_then (get_int is1) (\<lambda>(y, is2).
     and_then (get_int is2) (\<lambda>(w, is3).
     and_then (get_int is3) (\<lambda>(h, is4).
     and_then (get_rows W \<lparr>rect_x = x, rect_y = y, rect_w = w, rect_h = h\<rparr> y (is4, fb))
       (get_rects W n)))))"

definition applyInstanceData :: "eq_frame_data \<Rightarrow> item list \<Rightarrow> error + eq_frame_data \<times> item list" where
  "applyInstanceData fd is =
     and_then (get_int is) (\<lambda>(w, is1).
     and_then (get_int is1) (\<lambda>(h, is2).
     and_then
       (if w \<noteq> vnc_width fd \<or> h \<noteq> vnc_height fd
        then resize_framebuffer w h (vnc_framebuffer fd)
        else Inr (vnc_framebuffer fd)) (\<lambda>fb.
     and_then (get_floats 6 is2) (\<lambda>(c, is3).
     and_then (get_size is3) (\<lambda>(n, is4).
     and_then (get_rects w n (is4, fb)) (\<lambda>(is5, fb').
       Inr (fd\<lparr>vnc_width := w, vnc_height := h, canvas := c, vnc_framebuffer := fb'\<rparr>,
            is5)))))))"


subsection \<open>The callbacks of the VNC client and the loop of \<^verbatim>\<open>main\<close>\<close>

text \<open>
  \<^verbatim>\<open>vnc_resize\<close>, with \<^verbatim>\<open>client->width\<close> and \<^verbatim>\<open>client->height\<close> as arguments. The new
  elements of the resized vector are zero. \<^verbatim>\<open>&(frame_data.vnc_framebuffer[0])\<close>
  subscripts the first element, which an empty vector does not have. The fields of
  \<^verbatim>\<open>client\<close> that the function sets belong to the client library and are not part of
  the frame data.
\<close>

definition vnc_resize :: "int \<Rightarrow> int \<Rightarrow> eq_frame_data \<Rightarrow> error + eq_frame_data" where
  "vnc_resize width height fd =
     and_then (resize_framebuffer width height (vnc_framebuffer fd)) (\<lambda>fb.
       if fb = [] then Inl OutOfBounds
       else Inr (fd\<lparr>vnc_width := width, vnc_height := height, vnc_framebuffer := fb,
                    vnc_dirty_rectangles :=
                      [\<lparr>rect_x = 0, rect_y = 0, rect_w = width, rect_h = height\<rparr>]\<rparr>))"

definition vnc_update :: "int \<Rightarrow> int \<Rightarrow> int \<Rightarrow> int \<Rightarrow> eq_frame_data \<Rightarrow> eq_frame_data" where
  "vnc_update x y w h fd =
     fd\<lparr>vnc_dirty_rectangles :=
          vnc_dirty_rectangles fd @ [\<lparr>rect_x = x, rect_y = y, rect_w = w, rect_h = h\<rparr>]\<rparr>"

text \<open>
  What happens to the frame data of the application node, in order: the client library
  calls \<^verbatim>\<open>MallocFrameBuffer\<close> (\<^verbatim>\<open>vnc_resize\<close>) and \<^verbatim>\<open>GotFrameBufferUpdate\<close>
  (\<^verbatim>\<open>vnc_update\<close>) from \<^verbatim>\<open>rfbInitClient\<close> and \<^verbatim>\<open>HandleRFBServerMessage\<close>, and each
  iteration of the loop of \<^verbatim>\<open>main\<close> ends with \<^verbatim>\<open>startFrame\<close>, \<^verbatim>\<open>finishFrame\<close> and
  \<^verbatim>\<open>vnc_dirty_rectangles.clear()\<close>. \<open>Frame c\<close> is that end of an iteration, \<open>c\<close> the
  canvas array as \<^verbatim>\<open>startFrame\<close> leaves it: the snapshot that \<^verbatim>\<open>frame_data.commit()\<close>
  takes is the frame data with this canvas array, and the list of dirty rectangles is
  empty afterwards.
\<close>

datatype event =
    MallocFrameBuffer int int
  | GotFrameBufferUpdate int int int int
  | Frame "float list"

text \<open>The snapshots committed while the events happen, in order, and the frame data at the end.\<close>

fun session :: "event list \<Rightarrow> eq_frame_data \<Rightarrow> error + eq_frame_data list \<times> eq_frame_data" where
  "session [] fd = Inr ([], fd)"
| "session (MallocFrameBuffer width height # es) fd =
     and_then (vnc_resize width height fd) (session es)"
| "session (GotFrameBufferUpdate x y w h # es) fd = session es (vnc_update x y w h fd)"
| "session (Frame c # es) fd =
     (let snapshot = fd\<lparr>canvas := c\<rparr> in
      and_then (session es (snapshot\<lparr>vnc_dirty_rectangles := []\<rparr>)) (\<lambda>(snapshots, fd').
        Inr (snapshot # snapshots, fd')))"

text \<open>The constructor \<^verbatim>\<open>eq_frame_data()\<close>; it leaves the canvas array uninitialised.\<close>

definition new_frame_data :: "float list \<Rightarrow> eq_frame_data" where
  "new_frame_data c =
     \<lparr>vnc_width = 0, vnc_height = 0, canvas = c, vnc_framebuffer = [], vnc_dirty_rectangles = []\<rparr>"

subsection \<open>Keys\<close>

text \<open>
  \<^verbatim>\<open>eqkey_to_rfbkey\<close> is a \<^verbatim>\<open>switch\<close> over the key codes \<^verbatim>\<open>eq::KC_...\<close> of Equalizer
  with the key symbols \<^verbatim>\<open>XK_...\<close> of X11 as results. Both families of constants come
  from headers outside this program: they are the parameters \<open>KC\<close> and \<open>XK\<close>, indexed
  by the rows of the table. Key codes and key symbols are \<^verbatim>\<open>uint32_t\<close>.
\<close>

datatype special_key =
    Key_Escape | Key_BackSpace | Key_Return | Key_Tab | Key_Home | Key_Left
  | Key_Up | Key_Right | Key_Down | Key_Page_Up | Key_Page_Down | Key_End
  | Key_F1 | Key_F2 | Key_F3 | Key_F4 | Key_F5 | Key_F6
  | Key_F7 | Key_F8 | Key_F9 | Key_F10 | Key_F11 | Key_F12
  | Key_F13 | Key_F14 | Key_F15 | Key_F16 | Key_F17 | Key_F18
  | Key_F19 | Key_F20 | Key_F21 | Key_F22 | Key_F23 | Key_F24

definition eqkey_to_rfbkey :: "(special_key \<Rightarrow> 32 word) \<Rightarrow> (special_key \<Rightarrow> 32 word) \<Rightarrow> 32 word \<Rightarrow> 32 word" where
  "eqkey_to_rfbkey KC XK key = (
      if key = KC Key_Escape then XK Key_Escape else
      if key = KC Key_BackSpace then XK Key_BackSpace else
      if key = KC Key_Return then XK Key_Return else
      if key = KC Key_Tab then XK Key_Tab else
      if key = KC Key_Home then XK Key_Home else
      if key = KC Key_Left then XK Key_Left else
      if key = KC Key_Up then XK Key_Up else
      if key = KC Key_Right then XK Key_Right else
      if key = KC Key_Down then XK Key_Down else
      if key = KC Key_Page_Up then XK Key_Page_Up else
      if key = KC Key_Page_Down then XK Key_Page_Down else
      if key = KC Key_End then XK Key_End else
      if key = KC Key_F1 then XK Key_F1 else
      if key = KC Key_F2 then XK Key_F2 else
      if key = KC Key_F3 then XK Key_F3 else
      if key = KC Key_F4 then XK Key_F4 else
      if key = KC Key_F5 then XK Key_F5 else
      if key = KC Key_F6 then XK Key_F6 else
      if key = KC Key_F7 then XK Key_F7 else
      if key = KC Key_F8 then XK Key_F8 else
      if key = KC Key_F9 then XK Key_F9 else
      if key = KC Key_F10 then XK Key_F10 else
      if key = KC Key_F11 then XK Key_F11 else
      if key = KC Key_F12 then XK Key_F12 else
      if key = KC Key_F13 then XK Key_F13 else
      if key = KC Key_F14 then XK Key_F14 else
      if key = KC Key_F15 then XK Key_F15 else
      if key = KC Key_F16 then XK Key_F16 else
      if key = KC Key_F17 then XK Key_F17 else
      if key = KC Key_F18 then XK Key_F18 else
      if key = KC Key_F19 then XK Key_F19 else
      if key = KC Key_F20 then XK Key_F20 else
      if key = KC Key_F21 then XK Key_F21 else
      if key = KC Key_F22 then XK Key_F22 else
      if key = KC Key_F23 then XK Key_F23 else
      if key = KC Key_F24 then XK Key_F24 else
      key)"


subsection \<open>Arithmetic on \<^verbatim>\<open>float\<close>\<close>

text \<open>
  The operations that have no real result for some arguments. The conversion of a
  \<^verbatim>\<open>float\<close> to \<^verbatim>\<open>int\<close> truncates towards zero and is undefined when the truncated
  value is not an \<^verbatim>\<open>int\<close>.
\<close>

definition fdiv :: "float \<Rightarrow> float \<Rightarrow> error + float" where
  "fdiv a b = (if b = 0 then Inl NonFinite else Inr (a / b))"

definition fsqrt :: "float \<Rightarrow> error + float" where
  "fsqrt a = (if a < 0 then Inl NonFinite else Inr (sqrt a))"

definition ftan :: "float \<Rightarrow> error + float" where
  "ftan a = (if cos a = 0 then Inl NonFinite else Inr (tan a))"

definition facos :: "float \<Rightarrow> error + float" where
  "facos a = (if - 1 \<le> a \<and> a \<le> 1 then Inr (arccos a) else Inl NonFinite)"

definition trunc :: "float \<Rightarrow> int" where
  "trunc f = (if 0 \<le> f then \<lfloor>f\<rfloor> else \<lceil>f\<rceil>)"

definition float_to_int :: "float \<Rightarrow> error + int" where
  "float_to_int f = c_int (trunc f)"

definition rad_to_deg :: "float \<Rightarrow> float" where
  "rad_to_deg rad = 180 / pi * rad"

type_synonym vec3 = "float \<times> float \<times> float"

fun dot :: "vec3 \<Rightarrow> vec3 \<Rightarrow> float" where
  "dot (v0, v1, v2) (w0, w1, w2) = v0 * w0 + v1 * w1 + v2 * w2"

fun cross :: "vec3 \<Rightarrow> vec3 \<Rightarrow> vec3" where
  "cross (v0, v1, v2) (w0, w1, w2) =
     (v1 * w2 - v2 * w1, v2 * w0 - v0 * w2, v0 * w1 - v1 * w0)"

subsection \<open>Arithmetic in binary32\<close>

text \<open>
  \<^verbatim>\<open>eqptr_to_rfbptr\<close> ends in conversions of a \<^verbatim>\<open>float\<close> to \<^verbatim>\<open>int\<close>, where the last
  digit of the \<^verbatim>\<open>float\<close> can decide the pixel. Its operations are therefore rounded
  as the source rounds them when every \<^verbatim>\<open>float\<close> operation is evaluated in the IEEE
  754 binary32 format: the exact result is rounded to the nearest number with a
  significand of 24 bits and an exponent of at least \<open>-126\<close>, a tie to the one with the
  even significand, and a rounded result of magnitude \<open>2 ^ 128\<close> or more is an infinity
  (\<open>NonFinite\<close>), as is a division by zero. \<open>find_exponent a k\<close> searches upwards from
  \<open>k\<close> for the binary exponent of \<open>a\<close>.
\<close>

definition pow2 :: "int \<Rightarrow> real" where
  "pow2 k = (if 0 \<le> k then 2 ^ nat k else 1 / 2 ^ nat (- k))"

function find_exponent :: "real \<Rightarrow> int \<Rightarrow> int" where
  "find_exponent a k = (if 127 \<le> k \<or> a < pow2 (k + 1) then k else find_exponent a (k + 1))"
  by pat_completeness auto
termination
  by (relation "measure (\<lambda>(a, k). nat (127 - k))") auto

declare find_exponent.simps [simp del]

definition round_even :: "real \<Rightarrow> int" where
  "round_even m =
     (let f = \<lfloor>m\<rfloor>; d = m - real_of_int f
      in if d < 1 / 2 then f else if 1 / 2 < d then f + 1 else if even f then f else f + 1)"

definition round32 :: "real \<Rightarrow> float" where
  "round32 a =
     (let q = pow2 (find_exponent \<bar>a\<bar> (- 126) - 23)
      in real_of_int (round_even (a / q)) * q)"

definition to_float :: "real \<Rightarrow> error + float" where
  "to_float a = (if \<bar>round32 a\<bar> < 2 ^ 128 then Inr (round32 a) else Inl NonFinite)"

definition int_to_float :: "int \<Rightarrow> error + float" where
  "int_to_float n = to_float (real_of_int n)"

definition float_add :: "float \<Rightarrow> float \<Rightarrow> error + float" where
  "float_add a b = to_float (a + b)"

definition float_sub :: "float \<Rightarrow> float \<Rightarrow> error + float" where
  "float_sub a b = to_float (a - b)"

definition float_mul :: "float \<Rightarrow> float \<Rightarrow> error + float" where
  "float_mul a b = to_float (a * b)"

definition float_div :: "float \<Rightarrow> float \<Rightarrow> error + float" where
  "float_div a b = (if b = 0 then Inl NonFinite else to_float (a / b))"

subsection \<open>Pointer events\<close>

text \<open>
  The fields of \<^verbatim>\<open>eq::PointerEvent\<close>, \<^verbatim>\<open>eq::PixelViewport\<close> and \<^verbatim>\<open>eq::Viewport\<close>
  that \<^verbatim>\<open>eqptr_to_rfbptr\<close> reads, and the button masks of Equalizer and of
  libvncclient, which come from headers outside this program.
\<close>

record PointerEvent =
  ev_x :: int
  ev_y :: int
  ev_buttons :: "32 word"
  xAxis :: int
  yAxis :: int

record PixelViewport =
  pvp_w :: int
  pvp_h :: int

record Viewport =
  vp_x :: float
  vp_y :: float
  vp_w :: float
  vp_h :: float

record button_masks =
  PTR_BUTTON1 :: "32 word"
  PTR_BUTTON2 :: "32 word"
  PTR_BUTTON3 :: "32 word"
  rfbButton1Mask :: "32 word"
  rfbButton2Mask :: "32 word"
  rfbButton3Mask :: "32 word"
  rfbWheelUpMask :: "32 word"
  rfbWheelDownMask :: "32 word"

definition rfb_buttons :: "button_masks \<Rightarrow> PointerEvent \<Rightarrow> 32 word" where
  "rfb_buttons m e =
     (let buttons = 0;
          buttons = (if ev_buttons e AND PTR_BUTTON1 m \<noteq> 0
                     then buttons OR rfbButton1Mask m else buttons);
          buttons = (if ev_buttons e AND PTR_BUTTON2 m \<noteq> 0
                     then buttons OR rfbButton2Mask m else buttons);
          buttons = (if ev_buttons e AND PTR_BUTTON3 m \<noteq> 0
                     then buttons OR rfbButton3Mask m else buttons);
          buttons = (if xAxis e > 0 \<or> yAxis e > 0
                     then buttons OR rfbWheelUpMask m else buttons);
          buttons = (if xAxis e < 0 \<or> yAxis e < 0
                     then buttons OR rfbWheelDownMask m else buttons)
      in buttons)"

text \<open>
  The result is \<open>(x, y, buttons)\<close>, the three reference parameters of the source. Each
  line is one operation of the source, in the order of its statements; an \<^verbatim>\<open>int\<close>
  operand of a \<^verbatim>\<open>float\<close> operation is converted to \<^verbatim>\<open>float\<close> first.
\<close>

definition eqptr_to_rfbptr :: "button_masks \<Rightarrow> PointerEvent \<Rightarrow> PixelViewport \<Rightarrow> Viewport \<Rightarrow>
    float list \<Rightarrow> int \<Rightarrow> int \<Rightarrow> error + int \<times> int \<times> 32 word" where
  "eqptr_to_rfbptr m e pvp vp canvas' vnc_width' vnc_height' =
     and_then (int_to_float (ev_x e)) (\<lambda>e_x.
     and_then (int_to_float (pvp_w pvp)) (\<lambda>pvp_w'.
     and_then (float_div e_x pvp_w') (\<lambda>event_channel_x.
     and_then (int_to_float (ev_y e)) (\<lambda>e_y.
     and_then (int_to_float (pvp_h pvp)) (\<lambda>pvp_h'.
     and_then (float_div e_y pvp_h') (\<lambda>event_channel_y.
     and_then (float_mul event_channel_x (vp_w vp)) (\<lambda>t.
     and_then (float_add (vp_x vp) t) (\<lambda>event_canvas_x.
     and_then (float_sub 1 event_channel_y) (\<lambda>t.
     and_then (float_mul t (vp_h vp)) (\<lambda>t.
     and_then (float_add (vp_y vp) t) (\<lambda>event_canvas_y.
     and_then (float_sub 1 event_canvas_y) (\<lambda>event_canvas_y.
     and_then (float_sub event_canvas_x (canvas' ! 2)) (\<lambda>t.
     and_then (float_div t (canvas' ! 4)) (\<lambda>event_canvas_area_x.
     and_then (float_sub event_canvas_y (canvas' ! 3)) (\<lambda>t.
     and_then (float_div t (canvas' ! 5)) (\<lambda>event_canvas_area_y.
     and_then (int_to_float vnc_width') (\<lambda>width.
     and_then (float_mul event_canvas_area_x width) (\<lambda>event_x.
     and_then (int_to_float vnc_height') (\<lambda>height.
     and_then (float_mul event_canvas_area_y height) (\<lambda>event_y.
     and_then (float_to_int event_x) (\<lambda>x.
     and_then (c_int (vnc_width' - 1)) (\<lambda>xmax.
     let x = (if x < 0 then 0 else x);
         x = (if x > xmax then xmax else x)
     in
     and_then (float_to_int event_y) (\<lambda>y.
     and_then (c_int (vnc_height' - 1)) (\<lambda>ymax.
     let y = (if y < 0 then 0 else y);
         y = (if y > ymax then ymax else y)
     in Inr (x, y, rfb_buttons m e)))))))))))))))))))))))))"

subsection \<open>The canvas rectangle\<close>

text \<open>
  The part of \<^verbatim>\<open>eq_config::startFrame\<close> that fills the canvas array, with the width
  and the height of the wall of the first canvas as arguments. The function goes on to
  set the head matrix and to commit the frame data.
\<close>

definition startFrame :: "screen_t \<Rightarrow> float \<Rightarrow> float \<Rightarrow> eq_frame_data \<Rightarrow> error + eq_frame_data" where
  "startFrame screen' wall_width wall_height frame_data =
     (if screen' = screen_canvas then
        let canvas0 = wall_width; canvas1 = wall_height in
        and_then (fdiv (real_of_int (vnc_width frame_data))
                       (real_of_int (vnc_height frame_data))) (\<lambda>ar.
        and_then (fdiv canvas0 canvas1) (\<lambda>canvas_ar.
        and_then
          (if ar \<ge> canvas_ar
           then and_then (fdiv canvas_ar ar) (\<lambda>canvas5. Inr (1, canvas5))
           else and_then (fdiv ar canvas_ar) (\<lambda>canvas4. Inr (canvas4, 1)))
          (\<lambda>(canvas4, canvas5).
             let canvas2 = (1 - canvas4) / 2;
                 canvas3 = (1 - canvas5) / 2
             in Inr (frame_data\<lparr>canvas :=
                       [canvas0, canvas1, canvas2, canvas3, canvas4, canvas5]\<rparr>))))
      else Inr frame_data)"

subsection \<open>Drawing\<close>

text \<open>
  \<^verbatim>\<open>eq_channel::frameDraw\<close> is modelled by the OpenGL calls it makes once the GL
  state is set up, in order. \<^verbatim>\<open>class eq_init_data\<close> holds the screen and its
  definition.
\<close>

record eq_init_data =
  view_only :: bool
  screen :: screen_t
  wall :: "float list"
  cylinder :: "float list"
  head_matrix :: "float list"

datatype gl_matrix = GL_PROJECTION | GL_MODELVIEW

datatype gl_primitive = GL_QUADS | GL_TRIANGLE_STRIP

datatype gl_call =
    glMatrixMode gl_matrix
  | glLoadIdentity
  | glRotatef float float float float
  | glTranslatef float float float
  | glBegin gl_primitive
  | glTexCoord2f float float
  | glVertex2f float float
  | glVertex3f float float float
  | glVertex3fv vec3
  | glEnd

text \<open>The loop \<^verbatim>\<open>for (int x = 0; x <= N; x++)\<close> of the cylinder, \<open>py\<close> computed before it.\<close>

function cylinder_strip :: "int \<Rightarrow> float \<Rightarrow> float \<Rightarrow> float \<Rightarrow> float \<Rightarrow> int \<Rightarrow> gl_call list" where
  "cylinder_strip N radius phi_center phi_range py x =
     (if x \<le> N then
        (let xf = real_of_int x / real_of_int N;
             phi = phi_center + (xf - 0.5) * phi_range;
             px = radius * cos phi;
             pz = radius * sin phi
         in [glTexCoord2f xf 0, glVertex3f px py pz, glTexCoord2f xf 1, glVertex3f px (- py) pz]
            @ cylinder_strip N radius phi_center phi_range py (x + 1))
      else [])"
  by pat_completeness auto
termination
  by (relation "measure (\<lambda>(N, radius, phi_center, phi_range, py, x). nat (N + 1 - x))") auto

declare cylinder_strip.simps [simp del]

definition frameDraw :: "eq_init_data \<Rightarrow> eq_frame_data \<Rightarrow> Viewport \<Rightarrow> error + gl_call list" where
  "frameDraw init_data frame_data canvas_channel_area =
     (case screen init_data of
        screen_canvas \<Rightarrow>
          (and_then (fdiv (canvas frame_data ! 2 - vp_x canvas_channel_area)
                         (vp_w canvas_channel_area)) (\<lambda>qx.
          and_then (fdiv (canvas frame_data ! 3 - vp_y canvas_channel_area)
                         (vp_h canvas_channel_area)) (\<lambda>qy.
          and_then (fdiv (2 * canvas frame_data ! 4) (vp_w canvas_channel_area)) (\<lambda>quad_w.
          and_then (fdiv (2 * canvas frame_data ! 5) (vp_h canvas_channel_area)) (\<lambda>quad_h.
            let quad_x = (qx - 0.5) * 2;
                quad_y = (qy - 0.5) * 2
            in Inr [glMatrixMode GL_PROJECTION, glLoadIdentity,
                    glMatrixMode GL_MODELVIEW, glLoadIdentity,
                    glBegin GL_QUADS,
                    glTexCoord2f 0 1, glVertex2f quad_x quad_y,
                    glTexCoord2f 1 1, glVertex2f (quad_x + quad_w) quad_y,
                    glTexCoord2f 1 0, glVertex2f (quad_x + quad_w) (quad_y + quad_h),
                    glTexCoord2f 0 0, glVertex2f quad_x (quad_y + quad_h),
                    glEnd])))))
      | screen_wall \<Rightarrow>
          (let bl = (wall init_data ! 0, wall init_data ! 1, wall init_data ! 2);
               br = (wall init_data ! 3, wall init_data ! 4, wall init_data ! 5);
               tl = (wall init_data ! 6, wall init_data ! 7, wall init_data ! 8);
               tr = (case (bl, br, tl) of ((bl0, bl1, bl2), (br0, br1, br2), (tl0, tl1, tl2)) \<Rightarrow>
                       (br0 + (tl0 - bl0), br1 + (tl1 - bl1), br2 + (tl2 - bl2)))
           in Inr [glBegin GL_QUADS,
                   glTexCoord2f 0 1, glVertex3fv bl,
                   glTexCoord2f 1 1, glVertex3fv br,
                   glTexCoord2f 1 0, glVertex3fv tr,
                   glTexCoord2f 0 0, glVertex3fv tl,
                   glEnd])
      | screen_cylinder \<Rightarrow>
          (let center = (cylinder init_data ! 0, cylinder init_data ! 1, cylinder init_data ! 2);
               up = (cylinder init_data ! 3, cylinder init_data ! 4, cylinder init_data ! 5);
               radius = cylinder init_data ! 6;
               phi_center = cylinder init_data ! 7;
               phi_range = cylinder init_data ! 8;
               theta_range = cylinder init_data ! 9
           in
           and_then (ftan (theta_range / 2)) (\<lambda>t.
           let py = radius * t;
               default_up = (0, 1, 0);
               rot_axis = cross default_up up
           in
           and_then (fsqrt (dot default_up default_up * dot up up)) (\<lambda>n.
           and_then (fdiv (dot default_up up) n) (\<lambda>c.
           and_then (facos c) (\<lambda>rot_angle.
             Inr ([glRotatef 90 0 1 0,
                   (case rot_axis of (a0, a1, a2) \<Rightarrow> glRotatef (rad_to_deg rot_angle) a0 a1 a2),
                   (case center of (c0, c1, c2) \<Rightarrow> glTranslatef c0 c1 c2),
                   glBegin GL_TRIANGLE_STRIP]
                  @ cylinder_strip 1000 radius phi_center phi_range py 0
                  @ [glEnd])))))))"

section \<open>Specification vocabulary\<close>

text \<open>
  The predicates in which the properties are stated, and the example data at which
  they are instantiated. None of them is part of the program.
\<close>

subsection \<open>Snapshots of the frame data\<close>

text \<open>
  A rectangle of the data model within a desktop of \<open>W\<close> by \<open>H\<close> pixels: no negative
  field, and the right and bottom edges inside.
\<close>

definition rect_ok :: "int \<Rightarrow> int \<Rightarrow> rectangle_t \<Rightarrow> bool" where
  "rect_ok W H r \<longleftrightarrow>
     0 \<le> rect_x r \<and> 0 \<le> rect_y r \<and> 0 \<le> rect_w r \<and> 0 \<le> rect_h r \<and>
     rect_x r + rect_w r \<le> W \<and> rect_y r + rect_h r \<le> H"

text \<open>
  Well-formed frame data: the desktop size and the number of pixels are non-negative
  \<^verbatim>\<open>int\<close> values, the framebuffer has one pixel for each position, the canvas array
  has its six elements, and every dirty rectangle lies within the desktop.
\<close>

definition frame_ok :: "eq_frame_data \<Rightarrow> bool" where
  "frame_ok fd \<longleftrightarrow>
     0 \<le> vnc_width fd \<and> 0 \<le> vnc_height fd \<and> is_int (vnc_width fd) \<and> is_int (vnc_height fd) \<and>
     is_int (vnc_width fd * vnc_height fd) \<and>
     length (vnc_framebuffer fd) = nat (vnc_width fd * vnc_height fd) \<and>
     length (canvas fd) = 6 \<and>
     list_all (rect_ok (vnc_width fd) (vnc_height fd)) (vnc_dirty_rectangles fd)"

text \<open>
  The pixels of a rectangle in row-major order: row \<open>y\<close> from \<open>r.y\<close> to \<open>r.y + r.h - 1\<close>,
  and in each row column \<open>x\<close> from \<open>r.x\<close> to \<open>r.x + r.w - 1\<close>, the pixel \<open>(x, y)\<close> at the
  index \<open>y * vnc_width + x\<close> of the framebuffer. \<open>rect_items\<close> is what the stream holds
  for the rectangle.
\<close>

definition rect_pixels :: "eq_frame_data \<Rightarrow> rectangle_t \<Rightarrow> pixel list" where
  "rect_pixels fd r =
     concat (map (\<lambda>y. map (\<lambda>x. vnc_framebuffer fd ! nat (y * vnc_width fd + x))
                          [rect_x r .. rect_x r + rect_w r - 1])
                 [rect_y r .. rect_y r + rect_h r - 1])"

definition rect_items :: "eq_frame_data \<Rightarrow> rectangle_t \<Rightarrow> item list" where
  "rect_items fd r =
     [Int32 (rect_x r), Int32 (rect_y r), Int32 (rect_w r), Int32 (rect_h r)] @
     map UInt32 (rect_pixels fd r)"

text \<open>
  The rectangle \<open>r\<close> covers the pixel \<open>(x, y)\<close>. \<open>cells_from\<close> and \<open>covered\<close> are the
  framebuffer indices of the covered pixels; only the proofs use them.
\<close>

definition covers :: "rectangle_t \<Rightarrow> int \<Rightarrow> int \<Rightarrow> bool" where
  "covers r x y \<longleftrightarrow>
     rect_x r \<le> x \<and> x < rect_x r + rect_w r \<and> rect_y r \<le> y \<and> y < rect_y r + rect_h r"

definition cells_from :: "int \<Rightarrow> rectangle_t \<Rightarrow> int \<Rightarrow> nat set" where
  "cells_from W r y0 =
     {nat (y * W + x) | x y. rect_x r \<le> x \<and> x < rect_x r + rect_w r \<and> y0 \<le> y \<and> y < rect_y r + rect_h r}"

definition covered :: "int \<Rightarrow> rectangle_t list \<Rightarrow> nat set" where
  "covered W rs = (\<Union>r\<in>set rs. cells_from W r (rect_y r))"

text \<open>
  The example of the specification: a 100 by 100 framebuffer, in which the pixel at
  index \<open>i\<close> has the value \<open>i\<close>, with the dirty rectangle \<open>{10, 20, 5, 5}\<close>. Then a 2 by
  2 desktop whose left column is dirty, and a replica of the same size.
\<close>

definition example_frame :: eq_frame_data where
  "example_frame =
     \<lparr>vnc_width = 100, vnc_height = 100, canvas = [16, 9, 0, 0, 1, 1],
      vnc_framebuffer = map word_of_nat [0 ..< 10000],
      vnc_dirty_rectangles = [\<lparr>rect_x = 10, rect_y = 20, rect_w = 5, rect_h = 5\<rparr>]\<rparr>"

definition small_frame :: eq_frame_data where
  "small_frame =
     \<lparr>vnc_width = 2, vnc_height = 2, canvas = [4, 3, 0, 0, 1, 1],
      vnc_framebuffer = [1, 2, 3, 4],
      vnc_dirty_rectangles = [\<lparr>rect_x = 0, rect_y = 0, rect_w = 1, rect_h = 2\<rparr>]\<rparr>"

definition small_replica :: eq_frame_data where
  "small_replica =
     \<lparr>vnc_width = 2, vnc_height = 2, canvas = [4, 3, 0, 0, 1, 1],
      vnc_framebuffer = [9, 9, 9, 9], vnc_dirty_rectangles = []\<rparr>"

subsection \<open>The session of the application node\<close>

text \<open>
  The bounds of the invariant of the dirty rectangles, for one rectangle and for the
  dirty rectangles of frame data.
\<close>

definition in_desktop :: "int \<Rightarrow> int \<Rightarrow> rectangle_t \<Rightarrow> bool" where
  "in_desktop W H r \<longleftrightarrow>
     0 \<le> rect_x r \<and> 0 \<le> rect_y r \<and> rect_x r + rect_w r \<le> W \<and> rect_y r + rect_h r \<le> H"

definition dirty_in_desktop :: "eq_frame_data \<Rightarrow> bool" where
  "dirty_in_desktop fd \<longleftrightarrow>
     list_all (in_desktop (vnc_width fd) (vnc_height fd)) (vnc_dirty_rectangles fd)"

text \<open>
  The remote desktop is trusted: every rectangle of a \<^verbatim>\<open>GotFrameBufferUpdate\<close> lies
  within the desktop size of the last \<^verbatim>\<open>MallocFrameBuffer\<close> before it (\<open>W\<close> by \<open>H\<close> at
  the start). \<open>update_of r\<close> is the update event of the rectangle \<open>r\<close>.
\<close>

fun trusted :: "event list \<Rightarrow> int \<Rightarrow> int \<Rightarrow> bool" where
  "trusted [] W H = True"
| "trusted (MallocFrameBuffer width height # es) W H = trusted es width height"
| "trusted (GotFrameBufferUpdate x y w h # es) W H =
     (in_desktop W H \<lparr>rect_x = x, rect_y = y, rect_w = w, rect_h = h\<rparr> \<and> trusted es W H)"
| "trusted (Frame c # es) W H = trusted es W H"

definition update_of :: "rectangle_t \<Rightarrow> event" where
  "update_of r = GotFrameBufferUpdate (rect_x r) (rect_y r) (rect_w r) (rect_h r)"

definition trusted_events :: "event list" where
  "trusted_events =
     [MallocFrameBuffer 4 3, GotFrameBufferUpdate 1 1 2 2, Frame [16, 9, 0, 0, 1, 1],
      GotFrameBufferUpdate 0 2 4 1]"

subsection \<open>The key table\<close>

text \<open>
  An instance of the two families of constants: the key codes count up from 256 in the
  order of the table, the key symbols are those of the X11 keyboard. \<open>example_key_of\<close>
  inverts \<open>example_KC\<close>.
\<close>

fun example_KC :: "special_key \<Rightarrow> 32 word" where
  "example_KC Key_Escape = 256"
| "example_KC Key_BackSpace = 257"
| "example_KC Key_Return = 258"
| "example_KC Key_Tab = 259"
| "example_KC Key_Home = 260"
| "example_KC Key_Left = 261"
| "example_KC Key_Up = 262"
| "example_KC Key_Right = 263"
| "example_KC Key_Down = 264"
| "example_KC Key_Page_Up = 265"
| "example_KC Key_Page_Down = 266"
| "example_KC Key_End = 267"
| "example_KC Key_F1 = 268"
| "example_KC Key_F2 = 269"
| "example_KC Key_F3 = 270"
| "example_KC Key_F4 = 271"
| "example_KC Key_F5 = 272"
| "example_KC Key_F6 = 273"
| "example_KC Key_F7 = 274"
| "example_KC Key_F8 = 275"
| "example_KC Key_F9 = 276"
| "example_KC Key_F10 = 277"
| "example_KC Key_F11 = 278"
| "example_KC Key_F12 = 279"
| "example_KC Key_F13 = 280"
| "example_KC Key_F14 = 281"
| "example_KC Key_F15 = 282"
| "example_KC Key_F16 = 283"
| "example_KC Key_F17 = 284"
| "example_KC Key_F18 = 285"
| "example_KC Key_F19 = 286"
| "example_KC Key_F20 = 287"
| "example_KC Key_F21 = 288"
| "example_KC Key_F22 = 289"
| "example_KC Key_F23 = 290"
| "example_KC Key_F24 = 291"

fun example_XK :: "special_key \<Rightarrow> 32 word" where
  "example_XK Key_Escape = 65307"
| "example_XK Key_BackSpace = 65288"
| "example_XK Key_Return = 65293"
| "example_XK Key_Tab = 65289"
| "example_XK Key_Home = 65360"
| "example_XK Key_Left = 65361"
| "example_XK Key_Up = 65362"
| "example_XK Key_Right = 65363"
| "example_XK Key_Down = 65364"
| "example_XK Key_Page_Up = 65365"
| "example_XK Key_Page_Down = 65366"
| "example_XK Key_End = 65367"
| "example_XK Key_F1 = 65470"
| "example_XK Key_F2 = 65471"
| "example_XK Key_F3 = 65472"
| "example_XK Key_F4 = 65473"
| "example_XK Key_F5 = 65474"
| "example_XK Key_F6 = 65475"
| "example_XK Key_F7 = 65476"
| "example_XK Key_F8 = 65477"
| "example_XK Key_F9 = 65478"
| "example_XK Key_F10 = 65479"
| "example_XK Key_F11 = 65480"
| "example_XK Key_F12 = 65481"
| "example_XK Key_F13 = 65482"
| "example_XK Key_F14 = 65483"
| "example_XK Key_F15 = 65484"
| "example_XK Key_F16 = 65485"
| "example_XK Key_F17 = 65486"
| "example_XK Key_F18 = 65487"
| "example_XK Key_F19 = 65488"
| "example_XK Key_F20 = 65489"
| "example_XK Key_F21 = 65490"
| "example_XK Key_F22 = 65491"
| "example_XK Key_F23 = 65492"
| "example_XK Key_F24 = 65493"

definition example_key_of :: "32 word \<Rightarrow> special_key" where
  "example_key_of c = (
      if c = 256 then Key_Escape else
      if c = 257 then Key_BackSpace else
      if c = 258 then Key_Return else
      if c = 259 then Key_Tab else
      if c = 260 then Key_Home else
      if c = 261 then Key_Left else
      if c = 262 then Key_Up else
      if c = 263 then Key_Right else
      if c = 264 then Key_Down else
      if c = 265 then Key_Page_Up else
      if c = 266 then Key_Page_Down else
      if c = 267 then Key_End else
      if c = 268 then Key_F1 else
      if c = 269 then Key_F2 else
      if c = 270 then Key_F3 else
      if c = 271 then Key_F4 else
      if c = 272 then Key_F5 else
      if c = 273 then Key_F6 else
      if c = 274 then Key_F7 else
      if c = 275 then Key_F8 else
      if c = 276 then Key_F9 else
      if c = 277 then Key_F10 else
      if c = 278 then Key_F11 else
      if c = 279 then Key_F12 else
      if c = 280 then Key_F13 else
      if c = 281 then Key_F14 else
      if c = 282 then Key_F15 else
      if c = 283 then Key_F16 else
      if c = 284 then Key_F17 else
      if c = 285 then Key_F18 else
      if c = 286 then Key_F19 else
      if c = 287 then Key_F20 else
      if c = 288 then Key_F21 else
      if c = 289 then Key_F22 else
      if c = 290 then Key_F23 else
      Key_F24)"

subsection \<open>The canvas rectangle\<close>

text \<open>
  The desktop of the example of the specification.
\<close>

definition desktop_800x600 :: eq_frame_data where
  "desktop_800x600 =
     \<lparr>vnc_width = 800, vnc_height = 600, canvas = [0, 0, 0, 0, 0, 0],
      vnc_framebuffer = replicate 480000 0, vnc_dirty_rectangles = []\<rparr>"

subsection \<open>Pointer events\<close>

text \<open>
  The steps of the pointer mapping as the specification numbers them, each operation
  in binary32: (1) the position in the channel as a fraction of its pixel size; (2)
  the position in the canvas, from the offset and the extent of the channel's
  viewport, with the vertical axis flipped; (3) the position in the canvas rectangle,
  from its origin and extent; (4) the position in the desktop. \<open>mapped_x\<close> and
  \<open>mapped_y\<close> are the four steps for each axis.
\<close>

definition channel_fraction :: "int \<Rightarrow> int \<Rightarrow> error + float" where
  "channel_fraction p n =
     and_then (int_to_float p) (\<lambda>a.
     and_then (int_to_float n) (\<lambda>b. float_div a b))"

definition canvas_fraction_x :: "Viewport \<Rightarrow> float \<Rightarrow> error + float" where
  "canvas_fraction_x vp cx = and_then (float_mul cx (vp_w vp)) (\<lambda>t. float_add (vp_x vp) t)"

definition canvas_fraction_y :: "Viewport \<Rightarrow> float \<Rightarrow> error + float" where
  "canvas_fraction_y vp cy =
     and_then (float_sub 1 cy) (\<lambda>up.
     and_then (float_mul up (vp_h vp)) (\<lambda>t.
     and_then (float_add (vp_y vp) t) (\<lambda>v. float_sub 1 v)))"

definition area_fraction :: "float \<Rightarrow> float \<Rightarrow> float \<Rightarrow> error + float" where
  "area_fraction v origin extent = and_then (float_sub v origin) (\<lambda>t. float_div t extent)"

definition desktop_coordinate :: "float \<Rightarrow> int \<Rightarrow> error + float" where
  "desktop_coordinate a n = and_then (int_to_float n) (\<lambda>b. float_mul a b)"

definition mapped_x :: "PointerEvent \<Rightarrow> PixelViewport \<Rightarrow> Viewport \<Rightarrow> float \<Rightarrow> float \<Rightarrow> int
    \<Rightarrow> error + float" where
  "mapped_x e pvp vp originX extentW W =
     and_then (channel_fraction (ev_x e) (pvp_w pvp)) (\<lambda>c.
     and_then (canvas_fraction_x vp c) (\<lambda>v.
     and_then (area_fraction v originX extentW) (\<lambda>a. desktop_coordinate a W)))"

definition mapped_y :: "PointerEvent \<Rightarrow> PixelViewport \<Rightarrow> Viewport \<Rightarrow> float \<Rightarrow> float \<Rightarrow> int
    \<Rightarrow> error + float" where
  "mapped_y e pvp vp originY extentH H =
     and_then (channel_fraction (ev_y e) (pvp_h pvp)) (\<lambda>c.
     and_then (canvas_fraction_y vp c) (\<lambda>v.
     and_then (area_fraction v originY extentH) (\<lambda>a. desktop_coordinate a H)))"

text \<open>
  Clamping into \<open>[0, n - 1]\<close>, and two pointer events in a channel of 100 by 100
  pixels that shows the whole canvas.
\<close>

definition clamp :: "int \<Rightarrow> int \<Rightarrow> int" where
  "clamp n v = (if v < 0 then 0 else if v > n - 1 then n - 1 else v)"

definition example_masks :: button_masks where
  "example_masks =
     \<lparr>PTR_BUTTON1 = 1, PTR_BUTTON2 = 2, PTR_BUTTON3 = 4,
      rfbButton1Mask = 1, rfbButton2Mask = 2, rfbButton3Mask = 4,
      rfbWheelUpMask = 8, rfbWheelDownMask = 16\<rparr>"

definition example_pointer :: PointerEvent where
  "example_pointer = \<lparr>ev_x = 150, ev_y = 1, ev_buttons = 0, xAxis = 0, yAxis = 0\<rparr>"

definition example_pvp :: PixelViewport where
  "example_pvp = \<lparr>pvp_w = 100, pvp_h = 100\<rparr>"

definition example_vp :: Viewport where
  "example_vp = \<lparr>vp_x = 0, vp_y = 0, vp_w = 1, vp_h = 1\<rparr>"

subsection \<open>Drawing\<close>

text \<open>
  The calls that change the model-view matrix; the four calls of the triangle strip
  for the index \<open>i\<close> of the loop; and a wall and a cylinder as examples.
\<close>

fun is_transform :: "gl_call \<Rightarrow> bool" where
  "is_transform (glRotatef a x y z) = True"
| "is_transform (glTranslatef x y z) = True"
| "is_transform _ = False"

definition strip_vertices :: "float \<Rightarrow> float \<Rightarrow> float \<Rightarrow> float \<Rightarrow> int \<Rightarrow> gl_call list" where
  "strip_vertices r phi0 dphi h i =
     (let t = real_of_int i / 1000;
          phi = phi0 + (t - 1 / 2) * dphi
      in [glTexCoord2f t 0, glVertex3f (r * cos phi) h (r * sin phi),
          glTexCoord2f t 1, glVertex3f (r * cos phi) (- h) (r * sin phi)])"

definition wall_example :: eq_init_data where
  "wall_example =
     \<lparr>view_only = False, screen = screen_wall, wall = [0, 0, 0, 1, 0, 0, 0, 1, 0],
      cylinder = [], head_matrix = [1, 0, 0, 0, 0, 1, 0, 0, 0, 0, 1, 0, 0, 0, 0, 1]\<rparr>"

definition cylinder_example :: eq_init_data where
  "cylinder_example =
     \<lparr>view_only = False, screen = screen_cylinder, wall = [],
      cylinder = [1, 2, 3, 1, 0, 0, 2, 0, 1, pi / 2],
      head_matrix = [1, 0, 0, 0, 0, 1, 0, 0, 0, 0, 1, 0, 0, 0, 0, 1]\<rparr>"

definition unit_viewport :: Viewport where
  "unit_viewport = \<lparr>vp_x = 0, vp_y = 0, vp_w = 1, vp_h = 1\<rparr>"

section \<open>Properties\<close>

subsection \<open>Snapshots of the frame data\<close>

lemma cell_bound:
  fixes W H x y :: int
  assumes "0 \<le> x" "x < W" "0 \<le> y" "y < H"
  shows "0 \<le> y * W" "y * W \<le> W * H" "0 \<le> y * W + x" "y * W + x < W * H"
proof -
  have W: "0 < W" using assms by linarith
  show "0 \<le> y * W" using assms W by simp
  have "(y + 1) * W \<le> H * W" using assms W by (intro mult_right_mono) auto
  then have *: "y * W + W \<le> W * H" by (simp add: algebra_simps)
  then show "y * W \<le> W * H" using W by linarith
  show "0 \<le> y * W + x" using \<open>0 \<le> y * W\<close> assms by linarith
  show "y * W + x < W * H" using * assms by linarith
qed

lemma pixel_index_ok:
  assumes "0 \<le> x" "x < W" "0 \<le> y" "y < H" "is_int (W * H)" "len = nat (W * H)"
  shows "pixel_index W x y len = Inr (nat (y * W + x))"
proof -
  note b = cell_bound[OF assms(1-4)]
  have "is_int (y * W)" "is_int (y * W + x)"
    using b assms(5) by (auto simp: is_int_def)
  then show ?thesis using b assms(6) by (simp add: pixel_index_def c_int_def)
qed

lemma is_int_sum:
  assumes "0 \<le> a" "0 \<le> b" "a + b \<le> W" "is_int W"
  shows "is_int (a + b)"
  using assms by (auto simp: is_int_def)

lemma put_row_eq:
  assumes "0 \<le> y" "y < H" "is_int (vnc_width fd * H)" "is_int (vnc_width fd)"
    and "length (vnc_framebuffer fd) = nat (vnc_width fd * H)"
    and "0 \<le> rect_x r" "0 \<le> rect_w r" "rect_x r + rect_w r \<le> vnc_width fd" "rect_x r \<le> x"
  shows "put_row fd r y x os =
    Inr (os @ map (\<lambda>x. UInt32 (vnc_framebuffer fd ! nat (y * vnc_width fd + x)))
                 [x .. rect_x r + rect_w r - 1])"
  using assms
proof (induction fd r y x os rule: put_row.induct)
  case (1 fd r y x os)
  have xe: "c_int (rect_x r + rect_w r) = Inr (rect_x r + rect_w r)"
    using is_int_sum[OF "1.prems"(6,7,8,4)] by (simp add: c_int_def)
  show ?case
  proof (cases "x < rect_x r + rect_w r")
    case True
    have idx: "pixel_index (vnc_width fd) x y (length (vnc_framebuffer fd)) = Inr (nat (y * vnc_width fd + x))"
      using True "1.prems" by (intro pixel_index_ok[where H = H]) auto
    have IH: "put_row fd r y (x + 1) (os @ [UInt32 (vnc_framebuffer fd ! nat (y * vnc_width fd + x))]) =
      Inr ((os @ [UInt32 (vnc_framebuffer fd ! nat (y * vnc_width fd + x))]) @
        map (\<lambda>x. UInt32 (vnc_framebuffer fd ! nat (y * vnc_width fd + x))) [x + 1 .. rect_x r + rect_w r - 1])"
      using "1.IH"[OF xe True idx] "1.prems" by simp
    have up: "[x .. rect_x r + rect_w r - 1] = x # [x + 1 .. rect_x r + rect_w r - 1]"
      using True by (simp add: upto_rec1)
    show ?thesis
      by (subst put_row.simps) (simp add: xe True idx IH up)
  next
    case False
    then show ?thesis by (subst put_row.simps) (simp add: xe)
  qed
qed

lemma put_rows_eq:
  assumes "is_int (vnc_width fd * H)" "is_int (vnc_width fd)" "is_int H"
    and "length (vnc_framebuffer fd) = nat (vnc_width fd * H)"
    and "0 \<le> rect_x r" "0 \<le> rect_w r" "rect_x r + rect_w r \<le> vnc_width fd"
    and "0 \<le> rect_y r" "0 \<le> rect_h r" "rect_y r + rect_h r \<le> H" "rect_y r \<le> y"
  shows "put_rows fd r y os =
    Inr (os @ concat (map (\<lambda>y. map (\<lambda>x. UInt32 (vnc_framebuffer fd ! nat (y * vnc_width fd + x)))
                 [rect_x r .. rect_x r + rect_w r - 1]) [y .. rect_y r + rect_h r - 1]))"
  using assms
proof (induction fd r y os rule: put_rows.induct)
  case (1 fd r y os)
  have ye: "c_int (rect_y r + rect_h r) = Inr (rect_y r + rect_h r)"
    using is_int_sum[OF "1.prems"(8,9,10,3)] by (simp add: c_int_def)
  show ?case
  proof (cases "y < rect_y r + rect_h r")
    case True
    let ?row = "map (\<lambda>x. UInt32 (vnc_framebuffer fd ! nat (y * vnc_width fd + x)))
                 [rect_x r .. rect_x r + rect_w r - 1]"
    have row: "put_row fd r y (rect_x r) os = Inr (os @ ?row)"
      using True "1.prems" by (intro put_row_eq[where H = H]) auto
    have IH: "put_rows fd r (y + 1) (os @ ?row) =
      Inr ((os @ ?row) @ concat (map (\<lambda>y. map (\<lambda>x. UInt32 (vnc_framebuffer fd ! nat (y * vnc_width fd + x)))
                 [rect_x r .. rect_x r + rect_w r - 1]) [y + 1 .. rect_y r + rect_h r - 1]))"
      using "1.IH"[OF ye True row] "1.prems" by simp
    have up: "[y .. rect_y r + rect_h r - 1] = y # [y + 1 .. rect_y r + rect_h r - 1]"
      using True by (simp add: upto_rec1)
    show ?thesis
      by (subst put_rows.simps) (simp add: ye True row IH up)
  next
    case False
    then show ?thesis by (subst put_rows.simps) (simp add: ye)
  qed
qed

lemma put_rects_eq:
  assumes "is_int (vnc_width fd * H)" "is_int (vnc_width fd)" "is_int H"
    and "length (vnc_framebuffer fd) = nat (vnc_width fd * H)"
    and "list_all (rect_ok (vnc_width fd) H) rs"
  shows "put_rects fd rs os = Inr (os @ concat (map (rect_items fd) rs))"
  using assms(5)
proof (induction rs arbitrary: os)
  case Nil
  then show ?case by simp
next
  case (Cons r rs)
  have r: "rect_ok (vnc_width fd) H r" and rs: "list_all (rect_ok (vnc_width fd) H) rs"
    using Cons.prems by simp_all
  have "put_rows fd r (rect_y r) (os @ [Int32 (rect_x r), Int32 (rect_y r), Int32 (rect_w r), Int32 (rect_h r)])
     = Inr (os @ rect_items fd r)"
    using r assms(1-4)
    by (subst put_rows_eq[where H = H]) (auto simp: rect_ok_def rect_items_def rect_pixels_def map_concat comp_def)
  then show ?case using Cons.IH[OF rs] by simp
qed

lemma length_rect_pixels:
  assumes "0 \<le> rect_w r" "0 \<le> rect_h r"
  shows "length (rect_pixels fd r) = nat (rect_w r * rect_h r)"
proof -
  have "length (rect_pixels fd r) = nat (rect_h r) * nat (rect_w r)"
    using assms by (simp add: rect_pixels_def length_concat comp_def sum_list_triv)
  then show ?thesis using assms by (simp add: nat_mult_distrib mult.commute)
qed

lemma get_row_eq:
  assumes "0 \<le> y" "y < H" "is_int (W * H)" "is_int W" "length fb = nat (W * H)"
    and "0 \<le> rect_x r" "0 \<le> rect_w r" "rect_x r + rect_w r \<le> W" "rect_x r \<le> x"
  shows "\<exists>fb'. get_row W r y x
            (map (\<lambda>x. UInt32 (g (nat (y * W + x)))) [x .. rect_x r + rect_w r - 1] @ rest, fb)
          = Inr (rest, fb') \<and> length fb' = length fb \<and>
          (\<forall>i<length fb. fb' ! i =
             (if i \<in> (\<lambda>x. nat (y * W + x)) ` {x ..< rect_x r + rect_w r} then g i else fb ! i))"
  using assms(5,9)
proof (induction "nat (rect_x r + rect_w r - x)" arbitrary: x fb)
  case 0
  have xe: "c_int (rect_x r + rect_w r) = Inr (rect_x r + rect_w r)"
    using is_int_sum[OF assms(6,7,8,4)] by (simp add: c_int_def)
  from 0 have "\<not> x < rect_x r + rect_w r" by simp
  then show ?case by (subst get_row.simps) (simp add: xe)
next
  case (Suc n)
  have xe: "c_int (rect_x r + rect_w r) = Inr (rect_x r + rect_w r)"
    using is_int_sum[OF assms(6,7,8,4)] by (simp add: c_int_def)
  from Suc.hyps(2) have lt: "x < rect_x r + rect_w r" by simp
  let ?i0 = "nat (y * W + x)"
  have idx: "pixel_index W x y (length fb) = Inr ?i0"
    using lt assms Suc.prems by (intro pixel_index_ok[where H = H]) auto
  have i0: "?i0 < length fb"
    using cell_bound(3,4)[of x W y H] lt assms Suc.prems by auto
  have up: "[x .. rect_x r + rect_w r - 1] = x # [x + 1 .. rect_x r + rect_w r - 1]"
    using lt by (simp add: upto_rec1)
  have n: "n = nat (rect_x r + rect_w r - (x + 1))" using Suc.hyps(2) by simp
  have len: "length (fb[?i0 := g ?i0]) = nat (W * H)" using Suc.prems by simp
  have x1: "rect_x r \<le> x + 1" using Suc.prems by simp
  from Suc.hyps(1)[OF n len x1] obtain fb' where
    run: "get_row W r y (x + 1)
            (map (\<lambda>x. UInt32 (g (nat (y * W + x)))) [x + 1 .. rect_x r + rect_w r - 1] @ rest, fb[?i0 := g ?i0])
          = Inr (rest, fb')"
    and l: "length fb' = length (fb[?i0 := g ?i0])"
    and v: "\<forall>i<length (fb[?i0 := g ?i0]). fb' ! i =
             (if i \<in> (\<lambda>x. nat (y * W + x)) ` {x + 1 ..< rect_x r + rect_w r} then g i
              else fb[?i0 := g ?i0] ! i)"
    by blast
  have S: "(\<lambda>x. nat (y * W + x)) ` {x ..< rect_x r + rect_w r}
         = insert ?i0 ((\<lambda>x. nat (y * W + x)) ` {x + 1 ..< rect_x r + rect_w r})"
  proof -
    have "{x ..< rect_x r + rect_w r} = insert x {x + 1 ..< rect_x r + rect_w r}"
      using lt by auto
    then show ?thesis by simp
  qed
  have step: "get_row W r y x
            (map (\<lambda>x. UInt32 (g (nat (y * W + x)))) [x .. rect_x r + rect_w r - 1] @ rest, fb)
          = Inr (rest, fb')"
    by (subst get_row.simps) (simp add: xe lt idx up run)
  have "\<forall>i<length fb. fb' ! i =
             (if i \<in> (\<lambda>x. nat (y * W + x)) ` {x ..< rect_x r + rect_w r} then g i else fb ! i)"
  proof (intro allI impI)
    fix i assume "i < length fb"
    then show "fb' ! i = (if i \<in> (\<lambda>x. nat (y * W + x)) ` {x ..< rect_x r + rect_w r} then g i else fb ! i)"
      using v i0 unfolding S by (cases "i = ?i0") auto
  qed
  with step l show ?case by auto
qed

lemma get_rows_eq:
  assumes "is_int (W * H)" "is_int W" "is_int H"
    and "0 \<le> rect_x r" "0 \<le> rect_w r" "rect_x r + rect_w r \<le> W"
    and "0 \<le> rect_y r" "0 \<le> rect_h r" "rect_y r + rect_h r \<le> H"
    and "length fb = nat (W * H)" "rect_y r \<le> y"
  shows "\<exists>fb'. get_rows W r y
            (concat (map (\<lambda>y. map (\<lambda>x. UInt32 (g (nat (y * W + x))))
                 [rect_x r .. rect_x r + rect_w r - 1]) [y .. rect_y r + rect_h r - 1]) @ rest, fb)
          = Inr (rest, fb') \<and> length fb' = length fb \<and>
          (\<forall>i<length fb. fb' ! i = (if i \<in> cells_from W r y then g i else fb ! i))"
  using assms(10,11)
proof (induction "nat (rect_y r + rect_h r - y)" arbitrary: y fb)
  case 0
  have ye: "c_int (rect_y r + rect_h r) = Inr (rect_y r + rect_h r)"
    using is_int_sum[OF assms(7,8,9,3)] by (simp add: c_int_def)
  from 0 have ge: "\<not> y < rect_y r + rect_h r" by simp
  then have "cells_from W r y = {}" by (auto simp: cells_from_def)
  then show ?case using ge by (subst get_rows.simps) (simp add: ye)
next
  case (Suc n)
  have ye: "c_int (rect_y r + rect_h r) = Inr (rect_y r + rect_h r)"
    using is_int_sum[OF assms(7,8,9,3)] by (simp add: c_int_def)
  from Suc.hyps(2) have lt: "y < rect_y r + rect_h r" by simp
  let ?rest = "concat (map (\<lambda>y. map (\<lambda>x. UInt32 (g (nat (y * W + x))))
                 [rect_x r .. rect_x r + rect_w r - 1]) [y + 1 .. rect_y r + rect_h r - 1]) @ rest"
  have y0: "0 \<le> y" "y < H" using lt assms Suc.prems by auto
  from get_row_eq[OF y0 assms(1,2) Suc.prems(1) assms(4,5,6) order_refl, of g ?rest]
  obtain fb1 where
    row: "get_row W r y (rect_x r)
            (map (\<lambda>x. UInt32 (g (nat (y * W + x)))) [rect_x r .. rect_x r + rect_w r - 1] @ ?rest, fb)
          = Inr (?rest, fb1)"
    and l1: "length fb1 = length fb"
    and v1: "\<forall>i<length fb. fb1 ! i =
             (if i \<in> (\<lambda>x. nat (y * W + x)) ` {rect_x r ..< rect_x r + rect_w r} then g i else fb ! i)"
    by blast
  have n: "n = nat (rect_y r + rect_h r - (y + 1))" using Suc.hyps(2) by simp
  have len1: "length fb1 = nat (W * H)" using l1 Suc.prems by simp
  have y1: "rect_y r \<le> y + 1" using Suc.prems by simp
  from Suc.hyps(1)[OF n len1 y1] obtain fb' where
    run: "get_rows W r (y + 1) (?rest, fb1) = Inr (rest, fb')"
    and l: "length fb' = length fb1"
    and v: "\<forall>i<length fb1. fb' ! i = (if i \<in> cells_from W r (y + 1) then g i else fb1 ! i)"
    by blast
  have up: "[y .. rect_y r + rect_h r - 1] = y # [y + 1 .. rect_y r + rect_h r - 1]"
    using lt by (simp add: upto_rec1)
  have step: "get_rows W r y
            (concat (map (\<lambda>y. map (\<lambda>x. UInt32 (g (nat (y * W + x))))
                 [rect_x r .. rect_x r + rect_w r - 1]) [y .. rect_y r + rect_h r - 1]) @ rest, fb)
          = Inr (rest, fb')"
    by (subst get_rows.simps) (simp add: ye lt up row run)
  have S: "cells_from W r y =
      (\<lambda>x. nat (y * W + x)) ` {rect_x r ..< rect_x r + rect_w r} \<union> cells_from W r (y + 1)"
  proof (rule set_eqI, rule iffI)
    fix i assume "i \<in> cells_from W r y"
    then obtain x' y' where i: "i = nat (y' * W + x')"
      and x': "rect_x r \<le> x'" "x' < rect_x r + rect_w r"
      and y': "y \<le> y'" "y' < rect_y r + rect_h r"
      unfolding cells_from_def by blast
    show "i \<in> (\<lambda>x. nat (y * W + x)) ` {rect_x r ..< rect_x r + rect_w r} \<union> cells_from W r (y + 1)"
    proof (cases "y' = y")
      case True
      then show ?thesis using i x' by auto
    next
      case False
      then have "y + 1 \<le> y'" using y' by simp
      then have "i \<in> cells_from W r (y + 1)"
        unfolding cells_from_def using i x' y' by blast
      then show ?thesis by simp
    qed
  next
    fix i
    assume "i \<in> (\<lambda>x. nat (y * W + x)) ` {rect_x r ..< rect_x r + rect_w r} \<union> cells_from W r (y + 1)"
    then consider x' where "i = nat (y * W + x')" "rect_x r \<le> x'" "x' < rect_x r + rect_w r"
      | "i \<in> cells_from W r (y + 1)" by auto
    then show "i \<in> cells_from W r y"
    proof cases
      case 1
      then show ?thesis unfolding cells_from_def using lt by blast
    next
      case 2
      then obtain x' y' where "i = nat (y' * W + x')"
        "rect_x r \<le> x'" "x' < rect_x r + rect_w r" "y + 1 \<le> y'" "y' < rect_y r + rect_h r"
        unfolding cells_from_def by blast
      moreover from this have "y \<le> y'" by simp
      ultimately show ?thesis unfolding cells_from_def by blast
    qed
  qed
  have "\<forall>i<length fb. fb' ! i = (if i \<in> cells_from W r y then g i else fb ! i)"
    using v v1 l1 unfolding S by auto
  with step l l1 show ?case by auto
qed

lemma rect_items_rows:
  "rect_items fd r =
     [Int32 (rect_x r), Int32 (rect_y r), Int32 (rect_w r), Int32 (rect_h r)] @
     concat (map (\<lambda>y. map (\<lambda>x. UInt32 (vnc_framebuffer fd ! nat (y * vnc_width fd + x)))
                 [rect_x r .. rect_x r + rect_w r - 1]) [rect_y r .. rect_y r + rect_h r - 1])"
  by (simp add: rect_items_def rect_pixels_def map_concat comp_def)

lemma get_rects_eq:
  assumes "is_int (vnc_width a * H)" "is_int (vnc_width a)" "is_int H"
    and "list_all (rect_ok (vnc_width a) H) rs" "length fb = nat (vnc_width a * H)"
  shows "\<exists>fb'. get_rects (vnc_width a) (length rs) (concat (map (rect_items a) rs) @ rest, fb)
          = Inr (rest, fb') \<and> length fb' = length fb \<and>
          (\<forall>i<length fb. fb' ! i =
             (if i \<in> covered (vnc_width a) rs then vnc_framebuffer a ! i else fb ! i))"
  using assms(4,5)
proof (induction rs arbitrary: fb)
  case Nil
  then show ?case by (simp add: covered_def)
next
  case (Cons r rs)
  have r: "rect_ok (vnc_width a) H r" and rs: "list_all (rect_ok (vnc_width a) H) rs"
    using Cons.prems by simp_all
  let ?W = "vnc_width a"
  let ?rest = "concat (map (rect_items a) rs) @ rest"
  from r have b: "0 \<le> rect_x r" "0 \<le> rect_w r" "rect_x r + rect_w r \<le> ?W"
    "0 \<le> rect_y r" "0 \<le> rect_h r" "rect_y r + rect_h r \<le> H"
    by (simp_all add: rect_ok_def)
  from get_rows_eq[OF assms(1,2,3) b Cons.prems(2) order_refl, of "(!) (vnc_framebuffer a)" ?rest]
  obtain fb1 where
    rows: "get_rows ?W r (rect_y r)
            (concat (map (\<lambda>y. map (\<lambda>x. UInt32 (vnc_framebuffer a ! nat (y * ?W + x)))
                 [rect_x r .. rect_x r + rect_w r - 1]) [rect_y r .. rect_y r + rect_h r - 1]) @ ?rest, fb)
          = Inr (?rest, fb1)"
    and l1: "length fb1 = length fb"
    and v1: "\<forall>i<length fb. fb1 ! i =
               (if i \<in> cells_from ?W r (rect_y r) then vnc_framebuffer a ! i else fb ! i)"
    by blast
  have len1: "length fb1 = nat (?W * H)" using l1 Cons.prems by simp
  from Cons.IH[OF rs len1] obtain fb' where
    run: "get_rects ?W (length rs) (?rest, fb1) = Inr (rest, fb')"
    and l: "length fb' = length fb1"
    and v: "\<forall>i<length fb1. fb' ! i =
               (if i \<in> covered ?W rs then vnc_framebuffer a ! i else fb1 ! i)"
    by blast
  have rec: "\<lparr>rect_x = rect_x r, rect_y = rect_y r, rect_w = rect_w r, rect_h = rect_h r\<rparr> = r"
    by simp
  have step: "get_rects ?W (length (r # rs)) (concat (map (rect_items a) (r # rs)) @ rest, fb)
          = Inr (rest, fb')"
    by (simp add: rect_items_rows rec rows run)
  have S: "covered ?W (r # rs) = cells_from ?W r (rect_y r) \<union> covered ?W rs"
    by (simp add: covered_def)
  have "\<forall>i<length fb. fb' ! i =
             (if i \<in> covered ?W (r # rs) then vnc_framebuffer a ! i else fb ! i)"
    using v v1 l1 unfolding S by auto
  with step l l1 show ?case by auto
qed

lemma getInstanceData_eq:
  assumes "frame_ok fd"
  shows "getInstanceData fd os =
    Inr (os @ [Int32 (vnc_width fd), Int32 (vnc_height fd), Floats (canvas fd),
               SizeT (length (vnc_dirty_rectangles fd))] @
         concat (map (rect_items fd) (vnc_dirty_rectangles fd)))"
  using assms unfolding getInstanceData_def frame_ok_def
  by (subst put_rects_eq[where H = "vnc_height fd"]) auto

lemma applyInstanceData_snapshot:
  assumes a: "frame_ok a"
    and rep: "vnc_width rep = vnc_width a \<and> vnc_height rep = vnc_height a \<longrightarrow>
              length (vnc_framebuffer rep) = nat (vnc_width a * vnc_height a)"
    and s: "s = [Int32 (vnc_width a), Int32 (vnc_height a), Floats (canvas a),
               SizeT (length (vnc_dirty_rectangles a))] @
         concat (map (rect_items a) (vnc_dirty_rectangles a))"
    and fb0: "fb0 = (if vnc_width a \<noteq> vnc_width rep \<or> vnc_height a \<noteq> vnc_height rep
                    then resize (nat (vnc_width a * vnc_height a)) (vnc_framebuffer rep)
                    else vnc_framebuffer rep)"
  shows "\<exists>fb'. applyInstanceData rep s =
           Inr (rep\<lparr>vnc_width := vnc_width a, vnc_height := vnc_height a, canvas := canvas a,
                    vnc_framebuffer := fb'\<rparr>, []) \<and>
           length fb' = nat (vnc_width a * vnc_height a) \<and>
           (\<forall>i<nat (vnc_width a * vnc_height a). fb' ! i =
              (if i \<in> covered (vnc_width a) (vnc_dirty_rectangles a)
               then vnc_framebuffer a ! i else fb0 ! i))"
proof -
  let ?W = "vnc_width a" and ?H = "vnc_height a"
  from a have ok: "is_int (?W * ?H)" "is_int ?W" "is_int ?H" "0 \<le> ?W" "0 \<le> ?H"
    "length (canvas a) = 6"
    "list_all (rect_ok ?W ?H) (vnc_dirty_rectangles a)"
    by (simp_all add: frame_ok_def)
  have nn: "\<not> ?W * ?H < 0" using ok(4,5) by (simp add: not_less)
  have rs: "(if ?W \<noteq> vnc_width rep \<or> ?H \<noteq> vnc_height rep
             then resize_framebuffer ?W ?H (vnc_framebuffer rep)
             else Inr (vnc_framebuffer rep)) = Inr fb0"
    using ok(1) by (simp add: fb0 resize_framebuffer_def c_int_def nn)
  have len0: "length fb0 = nat (?W * ?H)"
    using rep by (auto simp: fb0 resize_def)
  from get_rects_eq[OF ok(1,2,3,7) len0, of "[]"] obtain fb' where
    run: "get_rects ?W (length (vnc_dirty_rectangles a))
            (concat (map (rect_items a) (vnc_dirty_rectangles a)), fb0) = Inr ([], fb')"
    and l: "length fb' = length fb0"
    and v: "\<forall>i<length fb0. fb' ! i =
               (if i \<in> covered ?W (vnc_dirty_rectangles a) then vnc_framebuffer a ! i else fb0 ! i)"
    by auto
  have "applyInstanceData rep s =
           Inr (rep\<lparr>vnc_width := ?W, vnc_height := ?H, canvas := canvas a,
                    vnc_framebuffer := fb'\<rparr>, [])"
    unfolding applyInstanceData_def s using rs run ok(6) by simp
  with l v len0 show ?thesis by auto
qed

lemma covers_cell:
  assumes "covers r x y"
  shows "nat (y * W + x) \<in> cells_from W r (rect_y r)"
  using assms unfolding covers_def cells_from_def by blast

lemma cell_inj:
  fixes W x y x' y' :: int
  assumes "0 \<le> x" "x < W" "0 \<le> x'" "x' < W" "y * W + x = y' * W + x'"
  shows "x = x' \<and> y = y'"
proof -
  have "(y * W + x) mod W = (y' * W + x') mod W" using assms(5) by simp
  then have "x mod W = x' mod W" by simp
  then have x: "x = x'" using assms(1-4) by simp
  then have "y * W = y' * W" using assms(5) by simp
  moreover have "W \<noteq> 0" using assms by auto
  ultimately show ?thesis using x by simp
qed

lemma uncovered_cell:
  assumes ok: "list_all (rect_ok W H) rs"
    and xy: "0 \<le> x" "x < W" "0 \<le> y" "y < H"
    and nc: "\<forall>r\<in>set rs. \<not> covers r x y"
  shows "nat (y * W + x) \<notin> covered W rs"
proof
  assume "nat (y * W + x) \<in> covered W rs"
  then obtain r x' y' where r: "r \<in> set rs" and eq: "nat (y * W + x) = nat (y' * W + x')"
    and c: "rect_x r \<le> x'" "x' < rect_x r + rect_w r" "rect_y r \<le> y'" "y' < rect_y r + rect_h r"
    unfolding covered_def cells_from_def by blast
  from ok r have rk: "rect_ok W H r" by (simp add: list_all_iff)
  then have b: "0 \<le> x'" "x' < W" "0 \<le> y'" "y' < H"
    using c by (auto simp: rect_ok_def)
  have "y * W + x = y' * W + x'"
    using eq cell_bound(3)[OF xy] cell_bound(3)[OF b] by simp
  from cell_inj[OF xy(1,2) b(1,2) this] have "covers r x y"
    using c by (simp add: covers_def)
  with nc r show False by blast
qed

text \<open>
  Claim C4. For frame data whose framebuffer has \<open>vnc_width * vnc_height\<close> pixels and
  whose dirty rectangles lie within the desktop, \<^verbatim>\<open>getInstanceData\<close> writes the
  desktop width, the desktop height, the canvas array and the number of dirty
  rectangles, and then for each dirty rectangle its four bounds followed by its
  pixels, read from the framebuffer row by row (\<open>rect_pixels\<close>): exactly \<open>w * h\<close> of
  them, and nothing else. The instance after the theorem is the example of the
  specification: one rectangle \<open>{10, 20, 5, 5}\<close> on a 100 by 100 framebuffer, with
  its 25 pixels from \<open>(10, 20)\<close> on.
\<close>

theorem getInstanceData_layout:
  assumes "frame_ok fd"
  shows "getInstanceData fd [] =
      Inr ([Int32 (vnc_width fd), Int32 (vnc_height fd), Floats (canvas fd),
            SizeT (length (vnc_dirty_rectangles fd))] @
           concat (map (\<lambda>r. [Int32 (rect_x r), Int32 (rect_y r), Int32 (rect_w r), Int32 (rect_h r)] @
                             map UInt32 (rect_pixels fd r))
                       (vnc_dirty_rectangles fd))) \<and>
    (\<forall>r\<in>set (vnc_dirty_rectangles fd). int (length (rect_pixels fd r)) = rect_w r * rect_h r)"
proof
  have "rect_items fd = (\<lambda>r. [Int32 (rect_x r), Int32 (rect_y r), Int32 (rect_w r), Int32 (rect_h r)] @
                             map UInt32 (rect_pixels fd r))"
    by (rule ext) (simp add: rect_items_def)
  then show "getInstanceData fd [] =
      Inr ([Int32 (vnc_width fd), Int32 (vnc_height fd), Floats (canvas fd),
            SizeT (length (vnc_dirty_rectangles fd))] @
           concat (map (\<lambda>r. [Int32 (rect_x r), Int32 (rect_y r), Int32 (rect_w r), Int32 (rect_h r)] @
                             map UInt32 (rect_pixels fd r))
                       (vnc_dirty_rectangles fd)))"
    using getInstanceData_eq[OF assms, of "[]"] by simp
  show "\<forall>r\<in>set (vnc_dirty_rectangles fd). int (length (rect_pixels fd r)) = rect_w r * rect_h r"
  proof
    fix r assume "r \<in> set (vnc_dirty_rectangles fd)"
    with assms have "rect_ok (vnc_width fd) (vnc_height fd) r"
      by (simp add: frame_ok_def list_all_iff)
    then have "0 \<le> rect_w r" "0 \<le> rect_h r" by (simp_all add: rect_ok_def)
    then show "int (length (rect_pixels fd r)) = rect_w r * rect_h r"
      by (simp add: length_rect_pixels)
  qed
qed

lemma example_frame_ok: "frame_ok example_frame"
  by (simp add: frame_ok_def example_frame_def rect_ok_def is_int_def)

lemma example_frame_pixels:
  "rect_pixels example_frame \<lparr>rect_x = 10, rect_y = 20, rect_w = 5, rect_h = 5\<rparr> =
     [2010, 2011, 2012, 2013, 2014,
      2110, 2111, 2112, 2113, 2114,
      2210, 2211, 2212, 2213, 2214,
      2310, 2311, 2312, 2313, 2314,
      2410, 2411, 2412, 2413, 2414]"
  by (simp add: rect_pixels_def example_frame_def)

theorem getInstanceData_layout_witness:
  "frame_ok example_frame \<and>
   getInstanceData example_frame [] =
     Inr ([Int32 100, Int32 100, Floats [16, 9, 0, 0, 1, 1], SizeT 1,
           Int32 10, Int32 20, Int32 5, Int32 5] @
          map UInt32
            [2010, 2011, 2012, 2013, 2014,
             2110, 2111, 2112, 2113, 2114,
             2210, 2211, 2212, 2213, 2214,
             2310, 2311, 2312, 2313, 2314,
             2410, 2411, 2412, 2413, 2414])"
proof -
  have "vnc_dirty_rectangles example_frame = [\<lparr>rect_x = 10, rect_y = 20, rect_w = 5, rect_h = 5\<rparr>]"
    "vnc_width example_frame = 100" "vnc_height example_frame = 100"
    "canvas example_frame = [16, 9, 0, 0, 1, 1]"
    by (simp_all add: example_frame_def)
  then show ?thesis
    using getInstanceData_layout[OF example_frame_ok] example_frame_ok
    by (simp add: example_frame_pixels)
qed

text \<open>
  Claim C1. The stream that \<^verbatim>\<open>getInstanceData\<close> writes for well-formed frame data
  (\<open>frame_ok\<close>), applied by \<^verbatim>\<open>applyInstanceData\<close> to newly constructed frame data
  (\<open>new_frame_data\<close>, whatever its canvas array holds), is read to its end and gives
  the replica the desktop size and a framebuffer of the same length that agrees with
  the authoritative framebuffer at every pixel covered by a dirty rectangle.
\<close>

theorem snapshot_roundtrip:
  assumes "frame_ok a"
  shows "\<exists>s rep'. getInstanceData a [] = Inr s \<and>
           applyInstanceData (new_frame_data c) s = Inr (rep', []) \<and>
           vnc_width rep' = vnc_width a \<and> vnc_height rep' = vnc_height a \<and>
           length (vnc_framebuffer rep') = length (vnc_framebuffer a) \<and>
           (\<forall>r\<in>set (vnc_dirty_rectangles a). \<forall>x y. covers r x y \<longrightarrow>
              vnc_framebuffer rep' ! nat (y * vnc_width rep' + x) =
              vnc_framebuffer a ! nat (y * vnc_width a + x))"
proof -
  let ?W = "vnc_width a" and ?H = "vnc_height a"
  let ?s = "[Int32 ?W, Int32 ?H, Floats (canvas a), SizeT (length (vnc_dirty_rectangles a))] @
            concat (map (rect_items a) (vnc_dirty_rectangles a))"
  have s: "getInstanceData a [] = Inr ?s"
    using getInstanceData_eq[OF assms, of "[]"] by simp
  have fresh: "vnc_width (new_frame_data c) = ?W \<and> vnc_height (new_frame_data c) = ?H \<longrightarrow>
      length (vnc_framebuffer (new_frame_data c)) = nat (?W * ?H)"
    by (auto simp: new_frame_data_def)
  from applyInstanceData_snapshot[OF assms fresh refl refl] obtain fb' where
    run: "applyInstanceData (new_frame_data c) ?s =
           Inr ((new_frame_data c)\<lparr>vnc_width := ?W, vnc_height := ?H, canvas := canvas a,
                    vnc_framebuffer := fb'\<rparr>, [])"
    and l: "length fb' = nat (?W * ?H)"
    and v: "\<forall>i<nat (?W * ?H). i \<in> covered ?W (vnc_dirty_rectangles a) \<longrightarrow> fb' ! i = vnc_framebuffer a ! i"
    by auto
  have cov: "fb' ! nat (y * ?W + x) = vnc_framebuffer a ! nat (y * ?W + x)"
    if r: "r \<in> set (vnc_dirty_rectangles a)" and c: "covers r x y" for r x y
  proof -
    from assms r have "rect_ok ?W ?H r" by (simp add: frame_ok_def list_all_iff)
    with c have b: "0 \<le> x" "x < ?W" "0 \<le> y" "y < ?H"
      by (auto simp: rect_ok_def covers_def)
    have "0 \<le> y * ?W + x" "y * ?W + x < ?W * ?H" using cell_bound(3,4)[OF b] .
    then have "nat (y * ?W + x) < nat (?W * ?H)" by simp
    moreover have "nat (y * ?W + x) \<in> covered ?W (vnc_dirty_rectangles a)"
      using covers_cell[OF c] r unfolding covered_def by blast
    ultimately show ?thesis using v by blast
  qed
  have "length fb' = length (vnc_framebuffer a)"
    using l assms by (simp add: frame_ok_def)
  with s run cov show ?thesis by (intro exI[of _ ?s] exI) auto
qed

lemma small_frame_ok: "frame_ok small_frame"
  by (simp add: frame_ok_def small_frame_def rect_ok_def is_int_def)

theorem snapshot_roundtrip_witness:
  "frame_ok small_frame \<and>
   (\<exists>s rep'. getInstanceData small_frame [] = Inr s \<and>
      applyInstanceData (new_frame_data [0, 0, 0, 0, 0, 0]) s = Inr (rep', []) \<and>
      vnc_width rep' = 2 \<and> vnc_height rep' = 2 \<and> length (vnc_framebuffer rep') = 4 \<and>
      vnc_framebuffer rep' ! 0 = 1 \<and> vnc_framebuffer rep' ! 2 = 3)"
proof -
  from snapshot_roundtrip[OF small_frame_ok, of "[0, 0, 0, 0, 0, 0]"] obtain s rep' where
    s: "getInstanceData small_frame [] = Inr s"
    and run: "applyInstanceData (new_frame_data [0, 0, 0, 0, 0, 0]) s = Inr (rep', [])"
    and d: "vnc_width rep' = vnc_width small_frame" "vnc_height rep' = vnc_height small_frame"
      "length (vnc_framebuffer rep') = length (vnc_framebuffer small_frame)"
    and v: "\<forall>r\<in>set (vnc_dirty_rectangles small_frame). \<forall>x y. covers r x y \<longrightarrow>
              vnc_framebuffer rep' ! nat (y * vnc_width rep' + x) =
              vnc_framebuffer small_frame ! nat (y * vnc_width small_frame + x)"
    by blast
  have r: "\<lparr>rect_x = 0, rect_y = 0, rect_w = 1, rect_h = 2\<rparr> \<in> set (vnc_dirty_rectangles small_frame)"
    by (simp add: small_frame_def)
  have c0: "covers \<lparr>rect_x = 0, rect_y = 0, rect_w = 1, rect_h = 2\<rparr> 0 0"
    and c1: "covers \<lparr>rect_x = 0, rect_y = 0, rect_w = 1, rect_h = 2\<rparr> 0 1"
    by (simp_all add: covers_def)
  from v r c0 have "vnc_framebuffer rep' ! nat (0 * vnc_width rep' + 0) =
              vnc_framebuffer small_frame ! nat (0 * vnc_width small_frame + 0)" by blast
  then have p0: "vnc_framebuffer rep' ! 0 = 1" by (simp add: small_frame_def)
  from v r c1 have "vnc_framebuffer rep' ! nat (1 * vnc_width rep' + 0) =
              vnc_framebuffer small_frame ! nat (1 * vnc_width small_frame + 0)" by blast
  then have p2: "vnc_framebuffer rep' ! 2 = 3" using d by (simp add: small_frame_def)
  from d have "vnc_width rep' = 2" "vnc_height rep' = 2" "length (vnc_framebuffer rep') = 4"
    by (simp_all add: small_frame_def)
  with s run p0 p2 small_frame_ok show ?thesis by blast
qed

text \<open>
  Claim C10. When the replica already has the desktop size of the snapshot (and a
  framebuffer of that size), \<^verbatim>\<open>applyInstanceData\<close> reads the stream that
  \<^verbatim>\<open>getInstanceData\<close> wrote for well-formed frame data to its end, keeps the
  length of the framebuffer and leaves every pixel that no transmitted rectangle
  covers as it was.
\<close>

theorem applyInstanceData_frame:
  assumes "frame_ok a"
    and "vnc_width rep = vnc_width a" "vnc_height rep = vnc_height a"
    and "length (vnc_framebuffer rep) = nat (vnc_width rep * vnc_height rep)"
  shows "\<exists>s rep'. getInstanceData a [] = Inr s \<and>
           applyInstanceData rep s = Inr (rep', []) \<and>
           length (vnc_framebuffer rep') = length (vnc_framebuffer rep) \<and>
           (\<forall>x y. 0 \<le> x \<and> x < vnc_width rep \<and> 0 \<le> y \<and> y < vnc_height rep \<and>
                  (\<forall>r\<in>set (vnc_dirty_rectangles a). \<not> covers r x y) \<longrightarrow>
              vnc_framebuffer rep' ! nat (y * vnc_width rep + x) =
              vnc_framebuffer rep ! nat (y * vnc_width rep + x))"
proof -
  let ?W = "vnc_width a" and ?H = "vnc_height a"
  let ?s = "[Int32 ?W, Int32 ?H, Floats (canvas a), SizeT (length (vnc_dirty_rectangles a))] @
            concat (map (rect_items a) (vnc_dirty_rectangles a))"
  have s: "getInstanceData a [] = Inr ?s"
    using getInstanceData_eq[OF assms(1), of "[]"] by simp
  have same: "vnc_width rep = ?W \<and> vnc_height rep = ?H \<longrightarrow>
      length (vnc_framebuffer rep) = nat (?W * ?H)"
    using assms by simp
  have fb0: "vnc_framebuffer rep = (if ?W \<noteq> vnc_width rep \<or> ?H \<noteq> vnc_height rep
                    then resize (nat (?W * ?H)) (vnc_framebuffer rep)
                    else vnc_framebuffer rep)"
    using assms by simp
  from applyInstanceData_snapshot[OF assms(1) same refl fb0] obtain fb' where
    run: "applyInstanceData rep ?s =
           Inr (rep\<lparr>vnc_width := ?W, vnc_height := ?H, canvas := canvas a,
                    vnc_framebuffer := fb'\<rparr>, [])"
    and l: "length fb' = nat (?W * ?H)"
    and v: "\<forall>i<nat (?W * ?H). i \<notin> covered ?W (vnc_dirty_rectangles a) \<longrightarrow> fb' ! i = vnc_framebuffer rep ! i"
    by auto
  from assms(1) have rs: "list_all (rect_ok ?W ?H) (vnc_dirty_rectangles a)"
    by (simp add: frame_ok_def)
  have out: "fb' ! nat (y * ?W + x) = vnc_framebuffer rep ! nat (y * ?W + x)"
    if b: "0 \<le> x" "x < ?W" "0 \<le> y" "y < ?H"
      and nc: "\<forall>r\<in>set (vnc_dirty_rectangles a). \<not> covers r x y" for x y
  proof -
    have "0 \<le> y * ?W + x" "y * ?W + x < ?W * ?H" using cell_bound(3,4)[OF b] .
    then have "nat (y * ?W + x) < nat (?W * ?H)" by simp
    moreover have "nat (y * ?W + x) \<notin> covered ?W (vnc_dirty_rectangles a)"
      using uncovered_cell[OF rs b nc] .
    ultimately show ?thesis using v by blast
  qed
  have "length fb' = length (vnc_framebuffer rep)" using l assms by simp
  with s run out assms(2,3) show ?thesis by (intro exI[of _ ?s] exI) auto
qed

lemma small_replica_ok:
  "vnc_width small_replica = vnc_width small_frame"
  "vnc_height small_replica = vnc_height small_frame"
  "length (vnc_framebuffer small_replica) = nat (vnc_width small_replica * vnc_height small_replica)"
  by (simp_all add: small_replica_def small_frame_def)

theorem applyInstanceData_frame_witness:
  "frame_ok small_frame \<and>
   vnc_width small_replica = vnc_width small_frame \<and>
   vnc_height small_replica = vnc_height small_frame \<and>
   length (vnc_framebuffer small_replica) = nat (vnc_width small_replica * vnc_height small_replica) \<and>
   (\<exists>s rep'. getInstanceData small_frame [] = Inr s \<and>
      applyInstanceData small_replica s = Inr (rep', []) \<and>
      length (vnc_framebuffer rep') = 4 \<and>
      vnc_framebuffer rep' ! 1 = 9 \<and> vnc_framebuffer rep' ! 3 = 9)"
proof -
  from applyInstanceData_frame[OF small_frame_ok small_replica_ok] obtain s rep' where
    s: "getInstanceData small_frame [] = Inr s"
    and run: "applyInstanceData small_replica s = Inr (rep', [])"
    and l: "length (vnc_framebuffer rep') = length (vnc_framebuffer small_replica)"
    and v: "\<forall>x y. 0 \<le> x \<and> x < vnc_width small_replica \<and> 0 \<le> y \<and> y < vnc_height small_replica \<and>
                  (\<forall>r\<in>set (vnc_dirty_rectangles small_frame). \<not> covers r x y) \<longrightarrow>
              vnc_framebuffer rep' ! nat (y * vnc_width small_replica + x) =
              vnc_framebuffer small_replica ! nat (y * vnc_width small_replica + x)"
    by blast
  have "vnc_framebuffer rep' ! nat (0 * vnc_width small_replica + 1) =
              vnc_framebuffer small_replica ! nat (0 * vnc_width small_replica + 1)"
    by (rule v[rule_format]) (simp add: small_replica_def small_frame_def covers_def)
  then have p1: "vnc_framebuffer rep' ! 1 = 9" by (simp add: small_replica_def)
  have "vnc_framebuffer rep' ! nat (1 * vnc_width small_replica + 1) =
              vnc_framebuffer small_replica ! nat (1 * vnc_width small_replica + 1)"
    by (rule v[rule_format]) (simp add: small_replica_def small_frame_def covers_def)
  then have p3: "vnc_framebuffer rep' ! 3 = 9" by (simp add: small_replica_def)
  from l have "length (vnc_framebuffer rep') = 4" by (simp add: small_replica_def)
  with s run p1 p3 small_frame_ok small_replica_ok show ?thesis by blast
qed

subsection \<open>The session of the application node\<close>

lemma vnc_resize_ok:
  assumes "0 < width" "0 < height" "width * height < 2 ^ 31"
  shows "vnc_resize width height fd =
    Inr (fd\<lparr>vnc_width := width, vnc_height := height,
            vnc_framebuffer := resize (nat (width * height)) (vnc_framebuffer fd),
            vnc_dirty_rectangles := [\<lparr>rect_x = 0, rect_y = 0, rect_w = width, rect_h = height\<rparr>]\<rparr>)"
proof -
  have pos: "0 < width * height" using assms by simp
  then have "is_int (width * height)" using assms(3) by (simp add: is_int_def)
  moreover have "\<not> width * height < 0" using pos by linarith
  moreover have "resize (nat (width * height)) (vnc_framebuffer fd) \<noteq> []"
  proof
    assume "resize (nat (width * height)) (vnc_framebuffer fd) = []"
    then have "length (resize (nat (width * height)) (vnc_framebuffer fd)) = 0" by simp
    moreover have "length (resize (nat (width * height)) (vnc_framebuffer fd)) = nat (width * height)"
      by (simp add: resize_def)
    ultimately show False using pos by simp
  qed
  ultimately show ?thesis
    by (simp add: vnc_resize_def resize_framebuffer_def c_int_def)
qed

lemma session_updates:
  "session (map update_of rs @ es) fd =
     session es (fd\<lparr>vnc_dirty_rectangles := vnc_dirty_rectangles fd @ rs\<rparr>)"
proof (induction rs arbitrary: fd)
  case Nil
  then show ?case by simp
next
  case (Cons r rs)
  obtain x y w h where r: "r = \<lparr>rect_x = x, rect_y = y, rect_w = w, rect_h = h\<rparr>"
    by (cases r)
  show ?case by (simp add: r update_of_def vnc_update_def Cons.IH[unfolded update_of_def])
qed

lemma session_append:
  assumes "session es fd = Inr (snaps, fd1)"
  shows "session (es @ es') fd =
     and_then (session es' fd1) (\<lambda>(snaps', fd'). Inr (snaps @ snaps', fd'))"
  using assms
proof (induction es fd arbitrary: snaps rule: session.induct)
  case (1 fd)
  then show ?case by (cases "session es' fd1") auto
next
  case (2 width height es fd)
  then show ?case by (cases "vnc_resize width height fd") auto
next
  case (3 x y w h es fd)
  then show ?case by simp
next
  case (4 c es fd)
  from "4.prems" obtain snaps0 where
    s0: "session es (fd\<lparr>canvas := c, vnc_dirty_rectangles := []\<rparr>) = Inr (snaps0, fd1)"
    and sn: "snaps = fd\<lparr>canvas := c\<rparr> # snaps0"
    by (cases "session es (fd\<lparr>canvas := c, vnc_dirty_rectangles := []\<rparr>)") (auto simp: Let_def)
  from "4.IH"[OF refl, of snaps0] s0
  have "session (es @ es') (fd\<lparr>canvas := c, vnc_dirty_rectangles := []\<rparr>) =
     and_then (session es' fd1) (\<lambda>(snaps', fd'). Inr (snaps0 @ snaps', fd'))"
    by simp
  then show ?case
    by (cases "session es' fd1") (auto simp: Let_def sn)
qed

text \<open>
  Claim C2, as amended. Whatever events came before it, a resize followed by the update
  rectangles \<open>rs\<close> and the end of the frame commits a snapshot whose dirty rectangles
  are the full rectangle \<open>{0, 0, width, height}\<close> followed by \<open>rs\<close>: the updates before
  the resize are dropped, the updates between the resize and the commit are kept, and
  the full rectangle is the only one exactly when no update arrived in between.
\<close>

theorem resize_snapshot:
  assumes "session pre fd = Inr (snaps, fd1)"
    and "0 < width" "0 < height" "width * height < 2 ^ 31"
  shows "\<exists>snapshot fd'.
      session (pre @ MallocFrameBuffer width height # map update_of rs @ [Frame c]) fd =
        Inr (snaps @ [snapshot], fd') \<and>
      vnc_width snapshot = width \<and> vnc_height snapshot = height \<and>
      vnc_dirty_rectangles snapshot =
        \<lparr>rect_x = 0, rect_y = 0, rect_w = width, rect_h = height\<rparr> # rs \<and>
      (rs = [] \<longleftrightarrow> length (vnc_dirty_rectangles snapshot) = 1)"
proof -
  have "session (MallocFrameBuffer width height # map update_of rs @ [Frame c]) fd1 =
      Inr ([fd1\<lparr>vnc_width := width, vnc_height := height,
                vnc_framebuffer := resize (nat (width * height)) (vnc_framebuffer fd1),
                vnc_dirty_rectangles := \<lparr>rect_x = 0, rect_y = 0, rect_w = width, rect_h = height\<rparr> # rs,
                canvas := c\<rparr>],
           fd1\<lparr>vnc_width := width, vnc_height := height,
                vnc_framebuffer := resize (nat (width * height)) (vnc_framebuffer fd1),
                vnc_dirty_rectangles := [],
                canvas := c\<rparr>)"
    by (simp add: vnc_resize_ok[OF assms(2,3,4)] session_updates Let_def)
  then show ?thesis
    using session_append[OF assms(1), of "MallocFrameBuffer width height # map update_of rs @ [Frame c]"]
    by simp
qed

theorem resize_snapshot_witness:
  "session [GotFrameBufferUpdate 5 5 1 1] (new_frame_data [0, 0, 0, 0, 0, 0]) =
     Inr ([], vnc_update 5 5 1 1 (new_frame_data [0, 0, 0, 0, 0, 0])) \<and>
   (0::int) < 4 \<and> (0::int) < 3 \<and> (4::int) * 3 < 2 ^ 31 \<and>
   (\<exists>snapshot fd'.
      session ([GotFrameBufferUpdate 5 5 1 1] @ MallocFrameBuffer 4 3 #
               map update_of [\<lparr>rect_x = 1, rect_y = 1, rect_w = 2, rect_h = 2\<rparr>] @
               [Frame [16, 9, 0, 0, 1, 1]]) (new_frame_data [0, 0, 0, 0, 0, 0]) =
        Inr ([] @ [snapshot], fd') \<and>
      vnc_dirty_rectangles snapshot =
        [\<lparr>rect_x = 0, rect_y = 0, rect_w = 4, rect_h = 3\<rparr>,
         \<lparr>rect_x = 1, rect_y = 1, rect_w = 2, rect_h = 2\<rparr>])"
proof -
  have pre: "session [GotFrameBufferUpdate 5 5 1 1] (new_frame_data [0, 0, 0, 0, 0, 0]) =
     Inr ([], vnc_update 5 5 1 1 (new_frame_data [0, 0, 0, 0, 0, 0]))"
    by simp
  have b: "(0::int) < 4" "(0::int) < 3" "(4::int) * 3 < 2 ^ 31" by simp_all
  from resize_snapshot[OF pre b, of "[\<lparr>rect_x = 1, rect_y = 1, rect_w = 2, rect_h = 2\<rparr>]" "[16, 9, 0, 0, 1, 1]"]
  show ?thesis using pre by auto
qed

text \<open>
  Claim C2 as stated fails: one update between the resize and the commit, and the
  committed snapshot has two dirty rectangles.
\<close>

theorem resize_snapshot_counterexample:
  "session [MallocFrameBuffer 4 4, GotFrameBufferUpdate 1 1 1 1, Frame [16, 9, 0, 0, 1, 1]]
     (new_frame_data [0, 0, 0, 0, 0, 0]) =
   Inr ([\<lparr>vnc_width = 4, vnc_height = 4, canvas = [16, 9, 0, 0, 1, 1],
          vnc_framebuffer = replicate 16 0,
          vnc_dirty_rectangles =
            [\<lparr>rect_x = 0, rect_y = 0, rect_w = 4, rect_h = 4\<rparr>,
             \<lparr>rect_x = 1, rect_y = 1, rect_w = 1, rect_h = 1\<rparr>]\<rparr>],
        \<lparr>vnc_width = 4, vnc_height = 4, canvas = [16, 9, 0, 0, 1, 1],
          vnc_framebuffer = replicate 16 0, vnc_dirty_rectangles = []\<rparr>)"
  by (simp add: vnc_resize_def resize_framebuffer_def c_int_def is_int_def resize_def
      vnc_update_def new_frame_data_def Let_def)

lemma session_dirty_in_desktop:
  assumes "trusted es (vnc_width fd) (vnc_height fd)" "dirty_in_desktop fd"
    and "session es fd = Inr (snaps, fd')"
  shows "list_all dirty_in_desktop (fd' # snaps)"
  using assms
proof (induction es fd arbitrary: snaps rule: session.induct)
  case (1 fd)
  then show ?case by simp
next
  case (2 width height es fd)
  from "2.prems"(3) obtain fd1 where r: "vnc_resize width height fd = Inr fd1"
    by (cases "vnc_resize width height fd") auto
  then have d: "vnc_width fd1 = width" "vnc_height fd1 = height"
    "vnc_dirty_rectangles fd1 = [\<lparr>rect_x = 0, rect_y = 0, rect_w = width, rect_h = height\<rparr>]"
    by (auto simp: vnc_resize_def and_then_def split: sum.splits if_splits)
  have "trusted es (vnc_width fd1) (vnc_height fd1)" using "2.prems"(1) d by simp
  moreover have "dirty_in_desktop fd1" by (simp add: dirty_in_desktop_def d in_desktop_def)
  moreover have "session es fd1 = Inr (snaps, fd')" using "2.prems"(3) r by simp
  ultimately show ?case by (rule "2.IH"[OF r])
next
  case (3 x y w h es fd)
  have "trusted es (vnc_width (vnc_update x y w h fd)) (vnc_height (vnc_update x y w h fd))"
    using "3.prems"(1) by (simp add: vnc_update_def)
  moreover have "dirty_in_desktop (vnc_update x y w h fd)"
    using "3.prems"(1,2) by (simp add: dirty_in_desktop_def vnc_update_def)
  moreover have "session es (vnc_update x y w h fd) = Inr (snaps, fd')" using "3.prems"(3) by simp
  ultimately show ?case by (rule "3.IH")
next
  case (4 c es fd)
  from "4.prems"(3) obtain snaps0 where
    s0: "session es (fd\<lparr>canvas := c, vnc_dirty_rectangles := []\<rparr>) = Inr (snaps0, fd')"
    and sn: "snaps = fd\<lparr>canvas := c\<rparr> # snaps0"
    by (cases "session es (fd\<lparr>canvas := c, vnc_dirty_rectangles := []\<rparr>)") (auto simp: Let_def)
  have "list_all dirty_in_desktop (fd' # snaps0)"
  proof (rule "4.IH"[OF refl])
    show "trusted es (vnc_width (fd\<lparr>canvas := c, vnc_dirty_rectangles := []\<rparr>))
           (vnc_height (fd\<lparr>canvas := c, vnc_dirty_rectangles := []\<rparr>))"
      using "4.prems"(1) by simp
    show "dirty_in_desktop (fd\<lparr>canvas := c, vnc_dirty_rectangles := []\<rparr>)"
      by (simp add: dirty_in_desktop_def)
    show "session es (fd\<lparr>canvas := c, vnc_dirty_rectangles := []\<rparr>) = Inr (snaps0, fd')"
      using s0 .
  qed
  moreover have "dirty_in_desktop (fd\<lparr>canvas := c\<rparr>)"
    using "4.prems"(2) by (simp add: dirty_in_desktop_def)
  ultimately show ?case by (simp add: sn)
qed

text \<open>
  Claim C3, as amended. \<^verbatim>\<open>vnc_update\<close> appends the rectangle it is given without a
  check. When every update rectangle lies within the desktop size current at its
  arrival (\<open>trusted\<close>), every dirty rectangle of every committed snapshot and of the
  frame data at the end lies within the desktop size.
\<close>

theorem dirty_rectangles_in_desktop:
  assumes "trusted es 0 0" and "session es (new_frame_data c) = Inr (snapshots, fd)"
  shows "(\<forall>s\<in>set (fd # snapshots). \<forall>r\<in>set (vnc_dirty_rectangles s).
            0 \<le> rect_x r \<and> 0 \<le> rect_y r \<and>
            rect_x r + rect_w r \<le> vnc_width s \<and> rect_y r + rect_h r \<le> vnc_height s) \<and>
         vnc_dirty_rectangles (vnc_update x y w h fd) =
           vnc_dirty_rectangles fd @ [\<lparr>rect_x = x, rect_y = y, rect_w = w, rect_h = h\<rparr>]"
proof -
  have "trusted es (vnc_width (new_frame_data c)) (vnc_height (new_frame_data c))"
    using assms(1) by (simp add: new_frame_data_def)
  moreover have "dirty_in_desktop (new_frame_data c)"
    by (simp add: dirty_in_desktop_def new_frame_data_def)
  ultimately have "list_all dirty_in_desktop (fd # snapshots)"
    using assms(2) by (rule session_dirty_in_desktop)
  then show ?thesis
    unfolding list_all_iff dirty_in_desktop_def in_desktop_def
    by (simp add: vnc_update_def)
qed

lemma trusted_events_session:
  "session trusted_events (new_frame_data [0, 0, 0, 0, 0, 0]) =
     Inr ([\<lparr>vnc_width = 4, vnc_height = 3, canvas = [16, 9, 0, 0, 1, 1],
            vnc_framebuffer = replicate 12 0,
            vnc_dirty_rectangles =
              [\<lparr>rect_x = 0, rect_y = 0, rect_w = 4, rect_h = 3\<rparr>,
               \<lparr>rect_x = 1, rect_y = 1, rect_w = 2, rect_h = 2\<rparr>]\<rparr>],
          \<lparr>vnc_width = 4, vnc_height = 3, canvas = [16, 9, 0, 0, 1, 1],
            vnc_framebuffer = replicate 12 0,
            vnc_dirty_rectangles = [\<lparr>rect_x = 0, rect_y = 2, rect_w = 4, rect_h = 1\<rparr>]\<rparr>)"
  by (simp add: trusted_events_def vnc_resize_def resize_framebuffer_def c_int_def is_int_def
      resize_def vnc_update_def new_frame_data_def Let_def)

theorem dirty_rectangles_in_desktop_witness:
  "trusted trusted_events 0 0 \<and>
   session trusted_events (new_frame_data [0, 0, 0, 0, 0, 0]) =
     Inr ([\<lparr>vnc_width = 4, vnc_height = 3, canvas = [16, 9, 0, 0, 1, 1],
            vnc_framebuffer = replicate 12 0,
            vnc_dirty_rectangles =
              [\<lparr>rect_x = 0, rect_y = 0, rect_w = 4, rect_h = 3\<rparr>,
               \<lparr>rect_x = 1, rect_y = 1, rect_w = 2, rect_h = 2\<rparr>]\<rparr>],
          \<lparr>vnc_width = 4, vnc_height = 3, canvas = [16, 9, 0, 0, 1, 1],
            vnc_framebuffer = replicate 12 0,
            vnc_dirty_rectangles = [\<lparr>rect_x = 0, rect_y = 2, rect_w = 4, rect_h = 1\<rparr>]\<rparr>) \<and>
   (1::int) + 2 \<le> 4 \<and> (1::int) + 2 \<le> 3 \<and> (0::int) + 4 \<le> 4 \<and> (2::int) + 1 \<le> 3"
proof -
  have t: "trusted trusted_events 0 0"
    by (simp add: trusted_events_def in_desktop_def)
  from dirty_rectangles_in_desktop[OF t trusted_events_session]
  show ?thesis using t trusted_events_session by simp
qed

text \<open>
  Claim C3 as stated fails: an update rectangle outside the 4 by 4 desktop is added to
  the dirty rectangles.
\<close>

theorem dirty_rectangles_in_desktop_counterexample:
  "session [MallocFrameBuffer 4 4, GotFrameBufferUpdate 10 10 5 5] (new_frame_data [0, 0, 0, 0, 0, 0]) =
     Inr ([], \<lparr>vnc_width = 4, vnc_height = 4, canvas = [0, 0, 0, 0, 0, 0],
               vnc_framebuffer = replicate 16 0,
               vnc_dirty_rectangles =
                 [\<lparr>rect_x = 0, rect_y = 0, rect_w = 4, rect_h = 4\<rparr>,
                  \<lparr>rect_x = 10, rect_y = 10, rect_w = 5, rect_h = 5\<rparr>]\<rparr>) \<and>
   \<not> (10::int) + 5 \<le> 4"
  by (simp add: vnc_resize_def resize_framebuffer_def c_int_def is_int_def resize_def
      vnc_update_def new_frame_data_def)

subsection \<open>The key table\<close>

lemma example_key_of_KC: "example_key_of (example_KC k) = k"
  by (cases k) (simp_all add: example_key_of_def)

lemma inj_example_KC: "inj example_KC"
  by (rule inj_on_inverseI[where g = example_key_of]) (rule example_key_of_KC)

lemma example_KC_not_97: "97 \<notin> range example_KC"
proof
  assume "97 \<in> range example_KC"
  then obtain k where "example_KC k = 97" by auto
  then show False by (cases k) simp_all
qed

lemma eqkey_to_rfbkey_special:
  assumes "inj KC"
  shows "eqkey_to_rfbkey KC XK (KC k) = XK k"
  by (cases k) (simp_all add: eqkey_to_rfbkey_def inj_eq[OF assms])

lemma eqkey_to_rfbkey_other:
  assumes "c \<notin> range KC"
  shows "eqkey_to_rfbkey KC XK c = c"
proof -
  have "\<And>k. c \<noteq> KC k" using assms by auto
  then show ?thesis by (simp add: eqkey_to_rfbkey_def)
qed

text \<open>
  Claim C7. With distinct case labels (as C++ requires of a \<^verbatim>\<open>switch\<close>),
  \<^verbatim>\<open>eqkey_to_rfbkey\<close> sends each of the 36 special key codes to its key symbol and
  every other code to itself; the escape code goes to the escape symbol, and the code
  97, when it is none of the special codes, stays 97.
\<close>

theorem eqkey_to_rfbkey_table:
  assumes "inj KC" and "97 \<notin> range KC"
  shows "(\<forall>k. eqkey_to_rfbkey KC XK (KC k) = XK k) \<and>
         (\<forall>c. c \<notin> range KC \<longrightarrow> eqkey_to_rfbkey KC XK c = c) \<and>
         eqkey_to_rfbkey KC XK (KC Key_Escape) = XK Key_Escape \<and>
         eqkey_to_rfbkey KC XK 97 = 97"
  using assms by (simp add: eqkey_to_rfbkey_special eqkey_to_rfbkey_other)

theorem eqkey_to_rfbkey_table_witness:
  "inj example_KC \<and> 97 \<notin> range example_KC \<and>
   eqkey_to_rfbkey example_KC example_XK 256 = 65307 \<and>
   eqkey_to_rfbkey example_KC example_XK 291 = 65493 \<and>
   eqkey_to_rfbkey example_KC example_XK 97 = 97"
proof -
  note t = eqkey_to_rfbkey_table[OF inj_example_KC example_KC_not_97, of example_XK]
  from t have "eqkey_to_rfbkey example_KC example_XK (example_KC Key_Escape) = example_XK Key_Escape"
    by blast
  moreover from t have "eqkey_to_rfbkey example_KC example_XK (example_KC Key_F24) = example_XK Key_F24"
    by blast
  moreover from t have "eqkey_to_rfbkey example_KC example_XK 97 = 97" by blast
  ultimately show ?thesis using inj_example_KC example_KC_not_97 by simp
qed

subsection \<open>The canvas rectangle\<close>

text \<open>
  \<^verbatim>\<open>startFrame\<close> changes nothing but the canvas array, which is why the \<open>Frame\<close>
  event of a session carries only that array.
\<close>

lemma startFrame_canvas_only:
  assumes "startFrame screen' wall_width wall_height fd = Inr fd'"
  shows "fd' = fd\<lparr>canvas := canvas fd'\<rparr>"
  using assms
  by (auto simp: startFrame_def fdiv_def Let_def and_then_def split: if_splits sum.splits)

text \<open>
  Claim C5. For positive aspect ratios of the desktop and of the canvas,
  \<^verbatim>\<open>startFrame\<close> in canvas mode sets the extent to \<open>(1, canvas_ar / ar)\<close> when
  \<open>ar \<ge> canvas_ar\<close> and to \<open>(ar / canvas_ar, 1)\<close> otherwise, and the origin to
  \<open>((1 - extentW) / 2, (1 - extentH) / 2)\<close>; both extents are at most 1 and one of
  them is 1. The instance after the theorem is the example of the specification: a
  desktop of 800 by 600 on a surface of 16:9.
\<close>

theorem startFrame_canvas_fit:
  fixes fd :: eq_frame_data and wall_width wall_height :: float
  defines "ar \<equiv> real_of_int (vnc_width fd) / real_of_int (vnc_height fd)"
    and "canvas_ar \<equiv> wall_width / wall_height"
  assumes "0 < ar" and "0 < canvas_ar"
  shows "\<exists>originX originY extentW extentH.
      startFrame screen_canvas wall_width wall_height fd =
        Inr (fd\<lparr>canvas := [wall_width, wall_height, originX, originY, extentW, extentH]\<rparr>) \<and>
      extentW = (if ar \<ge> canvas_ar then 1 else ar / canvas_ar) \<and>
      extentH = (if ar \<ge> canvas_ar then canvas_ar / ar else 1) \<and>
      originX = (1 - extentW) / 2 \<and> originY = (1 - extentH) / 2 \<and>
      extentW \<le> 1 \<and> extentH \<le> 1 \<and> (extentW = 1 \<or> extentH = 1)"
proof -
  have h: "real_of_int (vnc_height fd) \<noteq> 0" "wall_height \<noteq> 0"
    using assms by (auto simp: ar_def canvas_ar_def)
  have d1: "fdiv (real_of_int (vnc_width fd)) (real_of_int (vnc_height fd)) = Inr ar"
    using h by (simp add: fdiv_def ar_def)
  have d2: "fdiv wall_width wall_height = Inr canvas_ar"
    using h by (simp add: fdiv_def canvas_ar_def)
  have d3: "fdiv canvas_ar ar = Inr (canvas_ar / ar)" "fdiv ar canvas_ar = Inr (ar / canvas_ar)"
    using assms(3,4) by (simp_all add: fdiv_def)
  show ?thesis
  proof (cases "ar \<ge> canvas_ar")
    case True
    then have "canvas_ar / ar \<le> 1" using assms(3) by simp
    moreover have "startFrame screen_canvas wall_width wall_height fd =
        Inr (fd\<lparr>canvas := [wall_width, wall_height, (1 - 1) / 2, (1 - canvas_ar / ar) / 2, 1, canvas_ar / ar]\<rparr>)"
      using True d1[unfolded ar_def] d2[unfolded canvas_ar_def] d3(1)
      by (simp add: startFrame_def Let_def ar_def[symmetric] canvas_ar_def[symmetric])
    ultimately show ?thesis using True
      by (intro exI[of _ "(1 - 1) / 2"] exI[of _ "(1 - canvas_ar / ar) / 2"]
          exI[of _ 1] exI[of _ "canvas_ar / ar"]) simp
  next
    case False
    then have "ar / canvas_ar \<le> 1" using assms(4) by simp
    moreover have "startFrame screen_canvas wall_width wall_height fd =
        Inr (fd\<lparr>canvas := [wall_width, wall_height, (1 - ar / canvas_ar) / 2, (1 - 1) / 2, ar / canvas_ar, 1]\<rparr>)"
      using False d1[unfolded ar_def] d2[unfolded canvas_ar_def] d3(2)
      by (simp add: startFrame_def Let_def ar_def[symmetric] canvas_ar_def[symmetric])
    ultimately show ?thesis using False
      by (intro exI[of _ "(1 - ar / canvas_ar) / 2"] exI[of _ "(1 - 1) / 2"]
          exI[of _ "ar / canvas_ar"] exI[of _ 1]) simp
  qed
qed

theorem startFrame_canvas_fit_witness:
  "(0::real) < real_of_int (vnc_width desktop_800x600) / real_of_int (vnc_height desktop_800x600) \<and>
   (0::real) < 16 / 9 \<and>
   startFrame screen_canvas 16 9 desktop_800x600 =
     Inr (desktop_800x600\<lparr>canvas := [16, 9, 1 / 8, 0, 3 / 4, 1]\<rparr>)"
proof -
  have a: "(0::real) < real_of_int (vnc_width desktop_800x600) / real_of_int (vnc_height desktop_800x600)"
    by (simp add: desktop_800x600_def)
  have b: "(0::real) < 16 / 9" by simp
  from startFrame_canvas_fit[OF a b] obtain originX originY extentW extentH where
    r: "startFrame screen_canvas 16 9 desktop_800x600 =
        Inr (desktop_800x600\<lparr>canvas := [16, 9, originX, originY, extentW, extentH]\<rparr>)"
    and w: "extentW = (if real_of_int (vnc_width desktop_800x600) / real_of_int (vnc_height desktop_800x600) \<ge> 16 / 9
             then 1 else real_of_int (vnc_width desktop_800x600) / real_of_int (vnc_height desktop_800x600) / (16 / 9))"
    and h: "extentH = (if real_of_int (vnc_width desktop_800x600) / real_of_int (vnc_height desktop_800x600) \<ge> 16 / 9
             then 16 / 9 / (real_of_int (vnc_width desktop_800x600) / real_of_int (vnc_height desktop_800x600)) else 1)"
    and o: "originX = (1 - extentW) / 2" "originY = (1 - extentH) / 2"
    by blast
  from w have w': "extentW = 3 / 4" by (simp add: desktop_800x600_def)
  from h have h': "extentH = 1" by (simp add: desktop_800x600_def)
  from o have "originX = 1 / 8" "originY = 0" by (simp_all add: w' h')
  with r w' h' a b show ?thesis by simp
qed

subsection \<open>Pointer events\<close>

lemma pow2_powr: "pow2 k = 2 powr real_of_int k"
proof (cases "0 \<le> k")
  case True
  have "(2::real) powr real (nat k) = 2 ^ nat k" by (rule powr_realpow) simp
  moreover have "real (nat k) = real_of_int k" using True by simp
  ultimately show ?thesis using True by (simp add: pow2_def)
next
  case False
  have "(2::real) powr real (nat (- k)) = 2 ^ nat (- k)" by (rule powr_realpow) simp
  moreover have "real_of_int k = - real (nat (- k))" using False by simp
  ultimately have "(2::real) powr real_of_int k = 1 / 2 ^ nat (- k)"
    by (simp only: powr_minus_divide)
  then show ?thesis using False by (simp add: pow2_def)
qed

lemma pow2_mono: "j \<le> k \<Longrightarrow> pow2 j \<le> pow2 k"
  by (simp add: pow2_powr powr_mono)

lemma find_exponent_eq:
  assumes "k \<le> e" "e \<le> 127" "a < pow2 (e + 1)" "k < e \<Longrightarrow> pow2 e \<le> a"
  shows "find_exponent a k = e"
  using assms
proof (induction "nat (e - k)" arbitrary: k)
  case 0
  then have "k = e" by simp
  then show ?case using "0.prems"(3) by (subst find_exponent.simps) simp
next
  case (Suc n)
  then have lt: "k < e" by simp
  have "pow2 (k + 1) \<le> pow2 e" using lt by (intro pow2_mono) simp
  then have ge: "\<not> a < pow2 (k + 1)" using Suc.prems(4)[OF lt] by simp
  have k: "\<not> 127 \<le> k" using lt Suc.prems(2) by simp
  have "find_exponent a (k + 1) = e"
  proof (rule Suc.hyps(1))
    show "n = nat (e - (k + 1))" using Suc.hyps(2) by simp
    show "k + 1 \<le> e" using lt by simp
    show "e \<le> 127" by fact
    show "a < pow2 (e + 1)" by fact
    show "pow2 e \<le> a" if "k + 1 < e" using Suc.prems(4)[OF lt] .
  qed
  then show ?case using ge k by (subst find_exponent.simps) simp
qed

text \<open>Rounding evaluated at a given exponent \<open>e\<close> and a given significand \<open>n\<close>.\<close>

lemma to_float_at:
  assumes "- 126 \<le> e" "e \<le> 127" "\<bar>a\<bar> < pow2 (e + 1)" "- 126 < e \<Longrightarrow> pow2 e \<le> \<bar>a\<bar>"
    and "round_even (a / pow2 (e - 23)) = n"
    and "r = real_of_int n * pow2 (e - 23)" and "\<bar>r\<bar> < 2 ^ 128"
  shows "to_float a = Inr r"
proof -
  have "find_exponent \<bar>a\<bar> (- 126) = e"
    using assms(1-4) by (intro find_exponent_eq) auto
  then have "round32 a = r" using assms(5,6) by (simp add: round32_def Let_def)
  then show ?thesis using assms(7) by (simp add: to_float_def)
qed

lemma and_then_eq_Inr: "and_then m f = Inr y \<longleftrightarrow> (\<exists>v. m = Inr v \<and> f v = Inr y)"
  by (cases m) simp_all

lemma trunc_towards_zero:
  "(0 \<le> f \<longrightarrow> real_of_int (trunc f) \<le> f \<and> f < real_of_int (trunc f) + 1) \<and>
   (f < 0 \<longrightarrow> real_of_int (trunc f) - 1 < f \<and> f \<le> real_of_int (trunc f))"
  by (auto simp: trunc_def) linarith+

text \<open>
  Claim C6. \<^verbatim>\<open>eqptr_to_rfbptr\<close> computes the four steps of the pointer mapping for each
  axis (\<open>mapped_x\<close>, \<open>mapped_y\<close>): it divides the event position by the pixel size of
  the channel, maps it into the canvas with the offset and the extent of the channel's
  viewport (the vertical axis flipped), subtracts the origin of the canvas rectangle
  and divides by its extent, and scales by the desktop size. It then truncates each
  coordinate towards zero to an \<^verbatim>\<open>int\<close> and clamps it into \<open>[0, W - 1]\<close> and
  \<open>[0, H - 1]\<close>: a coordinate in the range is returned as it is. The steps are
  finite, the desktop is not empty, and the truncated coordinates are \<^verbatim>\<open>int\<close>
  values. The instance after the theorem has a row where the rounding of binary32
  decides the pixel (row 5, where exact arithmetic gives 6) and a column that is
  clamped.
\<close>

theorem eqptr_to_rfbptr_clamped:
  assumes "mapped_x e pvp vp originX extentW W = Inr event_x"
    and "mapped_y e pvp vp originY extentH H = Inr event_y"
    and "0 < W" "W < 2 ^ 31" "0 < H" "H < 2 ^ 31"
    and "is_int (trunc event_x)" "is_int (trunc event_y)"
  shows "\<exists>x y.
         eqptr_to_rfbptr m e pvp vp [c0, c1, originX, originY, extentW, extentH] W H =
           Inr (x, y, rfb_buttons m e) \<and>
         x = clamp W (trunc event_x) \<and> y = clamp H (trunc event_y) \<and>
         0 \<le> x \<and> x \<le> W - 1 \<and> 0 \<le> y \<and> y \<le> H - 1 \<and>
         (0 \<le> trunc event_x \<and> trunc event_x \<le> W - 1 \<longrightarrow> x = trunc event_x) \<and>
         (0 \<le> trunc event_y \<and> trunc event_y \<le> H - 1 \<longrightarrow> y = trunc event_y) \<and>
         (0 \<le> event_x \<longrightarrow>
            real_of_int (trunc event_x) \<le> event_x \<and> event_x < real_of_int (trunc event_x) + 1) \<and>
         (event_x < 0 \<longrightarrow>
            real_of_int (trunc event_x) - 1 < event_x \<and> event_x \<le> real_of_int (trunc event_x)) \<and>
         (0 \<le> event_y \<longrightarrow>
            real_of_int (trunc event_y) \<le> event_y \<and> event_y < real_of_int (trunc event_y) + 1) \<and>
         (event_y < 0 \<longrightarrow>
            real_of_int (trunc event_y) - 1 < event_y \<and> event_y \<le> real_of_int (trunc event_y))"
proof -
  from assms(1) obtain ex pw cx tx1 canx dx ax fw where x:
    "int_to_float (ev_x e) = Inr ex" "int_to_float (pvp_w pvp) = Inr pw"
    "float_div ex pw = Inr cx"
    "float_mul cx (vp_w vp) = Inr tx1" "float_add (vp_x vp) tx1 = Inr canx"
    "float_sub canx originX = Inr dx" "float_div dx extentW = Inr ax"
    "int_to_float W = Inr fw" "float_mul ax fw = Inr event_x"
    unfolding mapped_x_def channel_fraction_def canvas_fraction_x_def area_fraction_def
      desktop_coordinate_def and_then_eq_Inr
    by blast
  from assms(2) obtain ey ph cy up ty1 v cany dy ay fh where y:
    "int_to_float (ev_y e) = Inr ey" "int_to_float (pvp_h pvp) = Inr ph"
    "float_div ey ph = Inr cy"
    "float_sub 1 cy = Inr up" "float_mul up (vp_h vp) = Inr ty1"
    "float_add (vp_y vp) ty1 = Inr v" "float_sub 1 v = Inr cany"
    "float_sub cany originY = Inr dy" "float_div dy extentH = Inr ay"
    "int_to_float H = Inr fh" "float_mul ay fh = Inr event_y"
    unfolding mapped_y_def channel_fraction_def canvas_fraction_y_def area_fraction_def
      desktop_coordinate_def and_then_eq_Inr
    by blast
  have n: "[c0, c1, originX, originY, extentW, extentH] ! 2 = originX"
    "[c0, c1, originX, originY, extentW, extentH] ! 3 = originY"
    "[c0, c1, originX, originY, extentW, extentH] ! 4 = extentW"
    "[c0, c1, originX, originY, extentW, extentH] ! 5 = extentH"
    by simp_all
  have t: "float_to_int event_x = Inr (trunc event_x)" "float_to_int event_y = Inr (trunc event_y)"
    using assms(7,8) by (simp_all add: float_to_int_def c_int_def)
  have m1: "c_int (W - 1) = Inr (W - 1)" "c_int (H - 1) = Inr (H - 1)"
    using assms(3-6) by (simp_all add: c_int_def is_int_def)
  have cx: "(if (if trunc event_x < 0 then 0 else trunc event_x) > W - 1 then W - 1
             else (if trunc event_x < 0 then 0 else trunc event_x)) = clamp W (trunc event_x)"
    using assms(3) by (auto simp: clamp_def)
  have cy: "(if (if trunc event_y < 0 then 0 else trunc event_y) > H - 1 then H - 1
             else (if trunc event_y < 0 then 0 else trunc event_y)) = clamp H (trunc event_y)"
    using assms(5) by (auto simp: clamp_def)
  have run: "eqptr_to_rfbptr m e pvp vp [c0, c1, originX, originY, extentW, extentH] W H =
           Inr (clamp W (trunc event_x), clamp H (trunc event_y), rfb_buttons m e)"
    unfolding eqptr_to_rfbptr_def
    by (simp only: n x y t m1 and_then_Inr Let_def cx cy)
  have b: "0 \<le> clamp W (trunc event_x)" "clamp W (trunc event_x) \<le> W - 1"
    "0 \<le> clamp H (trunc event_y)" "clamp H (trunc event_y) \<le> H - 1"
    using assms(3,5) by (auto simp: clamp_def)
  have p: "0 \<le> trunc event_x \<and> trunc event_x \<le> W - 1 \<longrightarrow> clamp W (trunc event_x) = trunc event_x"
    "0 \<le> trunc event_y \<and> trunc event_y \<le> H - 1 \<longrightarrow> clamp H (trunc event_y) = trunc event_y"
    by (auto simp: clamp_def)
  show ?thesis
    using run b p trunc_towards_zero[of event_x] trunc_towards_zero[of event_y]
    by (intro exI[of _ "clamp W (trunc event_x)"] exI[of _ "clamp H (trunc event_y)"]) blast
qed

text \<open>The operations of the two example events, each with its exponent and significand.\<close>

lemma example_steps:
  "int_to_float 150 = Inr 150"
  "int_to_float 100 = Inr 100"
  "float_div 150 100 = Inr (3 / 2)"
  "int_to_float 1 = Inr 1"
  "float_div 1 100 = Inr (5368709 / 536870912)"
  "float_mul (3 / 2) 1 = Inr (3 / 2)"
  "float_add 0 (3 / 2) = Inr (3 / 2)"
  "float_sub 1 (5368709 / 536870912) = Inr (4152361 / 4194304)"
  "float_mul (4152361 / 4194304) 1 = Inr (4152361 / 4194304)"
  "float_add 0 (4152361 / 4194304) = Inr (4152361 / 4194304)"
  "float_sub 1 (4152361 / 4194304) = Inr (41943 / 4194304)"
  "float_sub (3 / 2) (1 / 8) = Inr (11 / 8)"
  "float_div (11 / 8) (3 / 4) = Inr (15379115 / 8388608)"
  "float_sub (41943 / 4194304) 0 = Inr (41943 / 4194304)"
  "float_div (41943 / 4194304) 1 = Inr (41943 / 4194304)"
  "int_to_float 800 = Inr 800"
  "float_mul (15379115 / 8388608) 800 = Inr (6007467 / 4096)"
  "int_to_float 600 = Inr 600"
  "float_mul (41943 / 4194304) 600 = Inr (3145725 / 524288)"
  "int_to_float 50 = Inr 50"
  "float_div 50 100 = Inr (1 / 2)"
  "float_mul (1 / 2) 1 = Inr (1 / 2)"
  "float_add 0 (1 / 2) = Inr (1 / 2)"
  "float_sub (1 / 2) (1 / 8) = Inr (3 / 8)"
  "float_div (3 / 8) (3 / 4) = Inr (1 / 2)"
  "float_mul (1 / 2) 800 = Inr 400"
proof -
  show "int_to_float 150 = Inr 150"
    unfolding int_to_float_def by (simp, rule to_float_at[where e = "7" and n = 9830400]) (simp_all add: pow2_def round_even_def Let_def)
  show "int_to_float 100 = Inr 100"
    unfolding int_to_float_def by (simp, rule to_float_at[where e = "6" and n = 13107200]) (simp_all add: pow2_def round_even_def Let_def)
  show "float_div 150 100 = Inr (3 / 2)"
    unfolding float_div_def by (simp, rule to_float_at[where e = "0" and n = 12582912]) (simp_all add: pow2_def round_even_def Let_def)
  show "int_to_float 1 = Inr 1"
    unfolding int_to_float_def by (simp, rule to_float_at[where e = "0" and n = 8388608]) (simp_all add: pow2_def round_even_def Let_def)
  show "float_div 1 100 = Inr (5368709 / 536870912)"
    unfolding float_div_def by (simp, rule to_float_at[where e = "- 7" and n = 10737418]) (simp_all add: pow2_def round_even_def Let_def)
  show "float_mul (3 / 2) 1 = Inr (3 / 2)"
    unfolding float_mul_def by (simp, rule to_float_at[where e = "0" and n = 12582912]) (simp_all add: pow2_def round_even_def Let_def)
  show "float_add 0 (3 / 2) = Inr (3 / 2)"
    unfolding float_add_def by (simp, rule to_float_at[where e = "0" and n = 12582912]) (simp_all add: pow2_def round_even_def Let_def)
  show "float_sub 1 (5368709 / 536870912) = Inr (4152361 / 4194304)"
    unfolding float_sub_def by (simp, rule to_float_at[where e = "- 1" and n = 16609444]) (simp_all add: pow2_def round_even_def Let_def)
  show "float_mul (4152361 / 4194304) 1 = Inr (4152361 / 4194304)"
    unfolding float_mul_def by (simp, rule to_float_at[where e = "- 1" and n = 16609444]) (simp_all add: pow2_def round_even_def Let_def)
  show "float_add 0 (4152361 / 4194304) = Inr (4152361 / 4194304)"
    unfolding float_add_def by (simp, rule to_float_at[where e = "- 1" and n = 16609444]) (simp_all add: pow2_def round_even_def Let_def)
  show "float_sub 1 (4152361 / 4194304) = Inr (41943 / 4194304)"
    unfolding float_sub_def by (simp, rule to_float_at[where e = "- 7" and n = 10737408]) (simp_all add: pow2_def round_even_def Let_def)
  show "float_sub (3 / 2) (1 / 8) = Inr (11 / 8)"
    unfolding float_sub_def by (simp, rule to_float_at[where e = "0" and n = 11534336]) (simp_all add: pow2_def round_even_def Let_def)
  show "float_div (11 / 8) (3 / 4) = Inr (15379115 / 8388608)"
    unfolding float_div_def by (simp, rule to_float_at[where e = "0" and n = 15379115]) (simp_all add: pow2_def round_even_def Let_def)
  show "float_sub (41943 / 4194304) 0 = Inr (41943 / 4194304)"
    unfolding float_sub_def by (simp, rule to_float_at[where e = "- 7" and n = 10737408]) (simp_all add: pow2_def round_even_def Let_def)
  show "float_div (41943 / 4194304) 1 = Inr (41943 / 4194304)"
    unfolding float_div_def by (simp, rule to_float_at[where e = "- 7" and n = 10737408]) (simp_all add: pow2_def round_even_def Let_def)
  show "int_to_float 800 = Inr 800"
    unfolding int_to_float_def by (simp, rule to_float_at[where e = "9" and n = 13107200]) (simp_all add: pow2_def round_even_def Let_def)
  show "float_mul (15379115 / 8388608) 800 = Inr (6007467 / 4096)"
    unfolding float_mul_def by (simp, rule to_float_at[where e = "10" and n = 12014934]) (simp_all add: pow2_def round_even_def Let_def)
  show "int_to_float 600 = Inr 600"
    unfolding int_to_float_def by (simp, rule to_float_at[where e = "9" and n = 9830400]) (simp_all add: pow2_def round_even_def Let_def)
  show "float_mul (41943 / 4194304) 600 = Inr (3145725 / 524288)"
    unfolding float_mul_def by (simp, rule to_float_at[where e = "2" and n = 12582900]) (simp_all add: pow2_def round_even_def Let_def)
  show "int_to_float 50 = Inr 50"
    unfolding int_to_float_def by (simp, rule to_float_at[where e = "5" and n = 13107200]) (simp_all add: pow2_def round_even_def Let_def)
  show "float_div 50 100 = Inr (1 / 2)"
    unfolding float_div_def by (simp, rule to_float_at[where e = "- 1" and n = 8388608]) (simp_all add: pow2_def round_even_def Let_def)
  show "float_mul (1 / 2) 1 = Inr (1 / 2)"
    unfolding float_mul_def by (simp, rule to_float_at[where e = "- 1" and n = 8388608]) (simp_all add: pow2_def round_even_def Let_def)
  show "float_add 0 (1 / 2) = Inr (1 / 2)"
    unfolding float_add_def by (simp, rule to_float_at[where e = "- 1" and n = 8388608]) (simp_all add: pow2_def round_even_def Let_def)
  show "float_sub (1 / 2) (1 / 8) = Inr (3 / 8)"
    unfolding float_sub_def by (simp, rule to_float_at[where e = "- 2" and n = 12582912]) (simp_all add: pow2_def round_even_def Let_def)
  show "float_div (3 / 8) (3 / 4) = Inr (1 / 2)"
    unfolding float_div_def by (simp, rule to_float_at[where e = "- 1" and n = 8388608]) (simp_all add: pow2_def round_even_def Let_def)
  show "float_mul (1 / 2) 800 = Inr 400"
    unfolding float_mul_def by (simp, rule to_float_at[where e = "8" and n = 13107200]) (simp_all add: pow2_def round_even_def Let_def)
qed

lemma example_mapped:
  "mapped_x example_pointer example_pvp example_vp (1 / 8) (3 / 4) 800 = Inr (6007467 / 4096)"
  "mapped_x (example_pointer\<lparr>ev_x := 50\<rparr>) example_pvp example_vp (1 / 8) (3 / 4) 800 = Inr 400"
  "mapped_y example_pointer example_pvp example_vp 0 1 600 = Inr (3145725 / 524288)"
  "mapped_y (example_pointer\<lparr>ev_x := 50\<rparr>) example_pvp example_vp 0 1 600 = Inr (3145725 / 524288)"
  by (simp_all add: mapped_x_def mapped_y_def channel_fraction_def canvas_fraction_x_def
      canvas_fraction_y_def area_fraction_def desktop_coordinate_def
      example_pointer_def example_pvp_def example_vp_def example_steps)

theorem eqptr_to_rfbptr_clamped_witness:
  "mapped_x example_pointer example_pvp example_vp (1 / 8) (3 / 4) 800 = Inr (6007467 / 4096) \<and>
   mapped_y example_pointer example_pvp example_vp 0 1 600 = Inr (3145725 / 524288) \<and>
   (0::int) < 800 \<and> (800::int) < 2 ^ 31 \<and> (0::int) < 600 \<and> (600::int) < 2 ^ 31 \<and>
   is_int (trunc (6007467 / 4096)) \<and> is_int (trunc (3145725 / 524288)) \<and>
   eqptr_to_rfbptr example_masks example_pointer example_pvp example_vp
     [16, 9, 1 / 8, 0, 3 / 4, 1] 800 600 = Inr (799, 5, 0) \<and>
   eqptr_to_rfbptr example_masks (example_pointer\<lparr>ev_x := 50\<rparr>) example_pvp example_vp
     [16, 9, 1 / 8, 0, 3 / 4, 1] 800 600 = Inr (400, 5, 0)"
proof -
  have a: "(0::int) < 800" "(800::int) < 2 ^ 31" "(0::int) < 600" "(600::int) < 2 ^ 31"
    by simp_all
  have fl: "\<lfloor>6007467 / 4096 :: real\<rfloor> = 1466" "\<lfloor>3145725 / 524288 :: real\<rfloor> = 5"
    by simp_all
  have t: "trunc (6007467 / 4096) = 1466" "trunc (3145725 / 524288) = 5" "trunc 400 = 400"
    using fl by (simp_all add: trunc_def)
  have i: "is_int (trunc (6007467 / 4096))" "is_int (trunc (3145725 / 524288))" "is_int (trunc 400)"
    unfolding t by (simp_all add: is_int_def)
  have b: "rfb_buttons example_masks example_pointer = 0"
    "rfb_buttons example_masks (example_pointer\<lparr>ev_x := 50\<rparr>) = 0"
    by (simp_all add: rfb_buttons_def example_masks_def example_pointer_def Let_def)
  from eqptr_to_rfbptr_clamped[OF example_mapped(1,3) a i(1,2), of example_masks 16 9]
  have r1: "eqptr_to_rfbptr example_masks example_pointer example_pvp example_vp
     [16, 9, 1 / 8, 0, 3 / 4, 1] 800 600 = Inr (799, 5, 0)"
    unfolding t b by (auto simp: clamp_def)
  from eqptr_to_rfbptr_clamped[OF example_mapped(2,4) a i(3,2), of example_masks 16 9]
  have r2: "eqptr_to_rfbptr example_masks (example_pointer\<lparr>ev_x := 50\<rparr>) example_pvp example_vp
     [16, 9, 1 / 8, 0, 3 / 4, 1] 800 600 = Inr (400, 5, 0)"
    unfolding t b by (auto simp: clamp_def)
  from example_mapped(1,3) a i(1,2) r1 r2 show ?thesis by simp
qed

subsection \<open>Drawing\<close>

text \<open>
  Claim C8. In wall mode \<^verbatim>\<open>frameDraw\<close> draws one quad: bottom left, bottom right,
  top right, top left, each after its texture coordinate, with the top right corner
  \<open>BR + (TL - BL)\<close> componentwise. The instance after the theorem is the example of
  the specification.
\<close>

theorem frameDraw_wall:
  assumes "screen init_data = screen_wall"
    and "wall init_data = [blx, bly, blz, brx, bry, brz, tlx, tly, tlz]"
  shows "frameDraw init_data frame_data vp =
    Inr [glBegin GL_QUADS,
         glTexCoord2f 0 1, glVertex3fv (blx, bly, blz),
         glTexCoord2f 1 1, glVertex3fv (brx, bry, brz),
         glTexCoord2f 1 0, glVertex3fv (brx + (tlx - blx), bry + (tly - bly), brz + (tlz - blz)),
         glTexCoord2f 0 0, glVertex3fv (tlx, tly, tlz),
         glEnd]"
  using assms by (simp add: frameDraw_def Let_def)

theorem frameDraw_wall_witness:
  "screen wall_example = screen_wall \<and> wall wall_example = [0, 0, 0, 1, 0, 0, 0, 1, 0] \<and>
   frameDraw wall_example (new_frame_data [0, 0, 0, 0, 0, 0]) unit_viewport =
    Inr [glBegin GL_QUADS,
         glTexCoord2f 0 1, glVertex3fv (0, 0, 0),
         glTexCoord2f 1 1, glVertex3fv (1, 0, 0),
         glTexCoord2f 1 0, glVertex3fv (1, 1, 0),
         glTexCoord2f 0 0, glVertex3fv (0, 1, 0),
         glEnd]"
proof -
  have a: "screen wall_example = screen_wall" "wall wall_example = [0, 0, 0, 1, 0, 0, 0, 1, 0]"
    by (simp_all add: wall_example_def)
  from frameDraw_wall[OF a, of "new_frame_data [0, 0, 0, 0, 0, 0]" unit_viewport] a
  show ?thesis by simp
qed

lemma cylinder_strip_eq:
  assumes "x \<le> 1001"
  shows "cylinder_strip 1000 r phi0 dphi h x = concat (map (strip_vertices r phi0 dphi h) [x .. 1000])"
  using assms
proof (induction "nat (1001 - x)" arbitrary: x)
  case 0
  then have "\<not> x \<le> 1000" by simp
  then show ?case by (subst cylinder_strip.simps) simp
next
  case (Suc n)
  then have le: "x \<le> 1000" by simp
  have n: "n = nat (1001 - (x + 1))" using Suc.hyps(2) by simp
  have x1: "x + 1 \<le> 1001" using le by simp
  have up: "[x .. 1000] = x # [x + 1 .. 1000]" using le by (simp add: upto_rec1)
  show ?case
    by (subst cylinder_strip.simps) (simp add: le Suc.hyps(1)[OF n x1] up strip_vertices_def Let_def)
qed

lemma abs_le_norm3: "\<bar>uy\<bar> \<le> sqrt (ux * ux + uy * uy + uz * uz)" for ux uy uz :: real
proof -
  have "uy * uy \<le> ux * ux + uy * uy + uz * uz" by (simp add: add_nonneg_nonneg)
  then have "sqrt (uy * uy) \<le> sqrt (ux * ux + uy * uy + uz * uz)" by (rule real_sqrt_le_mono)
  then show ?thesis by simp
qed

lemma frameDraw_cylinder_calls:
  fixes cx cy cz ux uy uz r phi0 dphi dtheta :: float
  defines "h \<equiv> r * tan (dtheta / 2)"
    and "angle \<equiv> arccos (uy / sqrt (ux * ux + uy * uy + uz * uz))"
  assumes "screen init_data = screen_cylinder"
    and "cylinder init_data = [cx, cy, cz, ux, uy, uz, r, phi0, dphi, dtheta]"
    and "(ux, uy, uz) \<noteq> (0, 0, 0)" and "cos (dtheta / 2) \<noteq> 0"
  shows "frameDraw init_data frame_data vp =
      Inr ([glRotatef 90 0 1 0,
            glRotatef (rad_to_deg angle) uz 0 (- ux),
            glTranslatef cx cy cz,
            glBegin GL_TRIANGLE_STRIP]
           @ concat (map (strip_vertices r phi0 dphi h) [0 .. 1000])
           @ [glEnd])"
proof -
  let ?n2 = "ux * ux + uy * uy + uz * uz"
  have pos: "0 < ?n2"
  proof -
    have "ux \<noteq> 0 \<or> uy \<noteq> 0 \<or> uz \<noteq> 0" using assms(5) by simp
    then have "ux * ux + uy * uy + uz * uz \<noteq> 0"
      by (metis add_nonneg_eq_0_iff mult_eq_0_iff zero_le_square add_nonneg_nonneg)
    moreover have "0 \<le> ?n2" by (simp add: add_nonneg_nonneg)
    ultimately show ?thesis by linarith
  qed
  have t: "ftan (dtheta / 2) = Inr (tan (dtheta / 2))" using assms(6) by (simp add: ftan_def)
  have s: "fsqrt (dot (0, 1, 0) (0, 1, 0) * dot (ux, uy, uz) (ux, uy, uz)) = Inr (sqrt ?n2)"
    using pos by (simp add: fsqrt_def)
  have d: "fdiv (dot (0, 1, 0) (ux, uy, uz)) (sqrt ?n2) = Inr (uy / sqrt ?n2)"
    using pos by (simp add: fdiv_def)
  have q: "\<bar>uy / sqrt ?n2\<bar> \<le> 1"
    using abs_le_norm3[of uy ux uz] pos by simp
  have "- 1 \<le> uy / sqrt ?n2" "uy / sqrt ?n2 \<le> 1"
    using q by linarith+
  then have a: "facos (uy / sqrt ?n2) = Inr angle"
    by (simp add: facos_def angle_def)
  have c: "cross (0, 1, 0) (ux, uy, uz) = (uz, 0, - ux)" by simp
  show "frameDraw init_data frame_data vp =
      Inr ([glRotatef 90 0 1 0,
            glRotatef (rad_to_deg angle) uz 0 (- ux),
            glTranslatef cx cy cz,
            glBegin GL_TRIANGLE_STRIP]
           @ concat (map (strip_vertices r phi0 dphi h) [0 .. 1000])
           @ [glEnd])"
    unfolding frameDraw_def
    by (simp add: assms(3,4) Let_def t s d a cylinder_strip_eq h_def del: dot.simps cross.simps)
       (simp add: c)
qed

text \<open>
  Claim C9, as amended. In cylinder mode \<^verbatim>\<open>frameDraw\<close> issues three transforms before
  the mesh: a rotation by 90 degrees about \<open>(0, 1, 0)\<close>, the rotation about
  \<open>cross (0, 1, 0) U\<close> by the arc cosine of the normalised dot product (in degrees),
  and the translation by the centre. The mesh is a triangle strip of 1001 pairs of
  vertices \<open>(r cos \<phi>, \<plusminus>h, r sin \<phi>)\<close> with texture coordinates \<open>(t, 0)\<close> and
  \<open>(t, 1)\<close>, where \<open>t = i / 1000\<close>, \<open>\<phi> = \<phi>0 + (t - 1/2) \<Delta>\<phi>\<close> and
  \<open>h = r tan (\<Delta>\<theta> / 2)\<close>. The up vector is not zero and the tangent exists.
\<close>

theorem frameDraw_cylinder:
  fixes cx cy cz ux uy uz r phi0 dphi dtheta :: float
  defines "h \<equiv> r * tan (dtheta / 2)"
    and "angle \<equiv> arccos (uy / sqrt (ux * ux + uy * uy + uz * uz))"
  assumes "screen init_data = screen_cylinder"
    and "cylinder init_data = [cx, cy, cz, ux, uy, uz, r, phi0, dphi, dtheta]"
    and "(ux, uy, uz) \<noteq> (0, 0, 0)" and "cos (dtheta / 2) \<noteq> 0"
  shows "frameDraw init_data frame_data vp =
      Inr ([glRotatef 90 0 1 0,
            glRotatef (rad_to_deg angle) uz 0 (- ux),
            glTranslatef cx cy cz,
            glBegin GL_TRIANGLE_STRIP]
           @ concat (map (strip_vertices r phi0 dphi h) [0 .. 1000])
           @ [glEnd]) \<and>
    cross (0, 1, 0) (ux, uy, uz) = (uz, 0, - ux) \<and>
    dot (0, 1, 0) (ux, uy, uz) / (sqrt (dot (0, 1, 0) (0, 1, 0)) * sqrt (dot (ux, uy, uz) (ux, uy, uz)))
      = uy / sqrt (ux * ux + uy * uy + uz * uz)"
  using frameDraw_cylinder_calls[OF assms(3-6), of frame_data vp]
  by (simp add: h_def angle_def)

lemma cylinder_example_ok:
  "screen cylinder_example = screen_cylinder"
  "cylinder cylinder_example = [1, 2, 3, 1, 0, 0, 2, 0, 1, pi / 2]"
  "((1, 0, 0) :: vec3) \<noteq> (0, 0, 0)"
  "cos (pi / 2 / 2) \<noteq> 0"
  by (simp_all add: cylinder_example_def cos_45)

lemma cylinder_example_values:
  "rad_to_deg (arccos (0 / sqrt (1 * 1 + 0 * 0 + 0 * 0))) = 90"
  "2 * tan (pi / 2 / 2) = (2 :: real)"
  by (simp_all add: rad_to_deg_def tan_45)

theorem frameDraw_cylinder_witness:
  "screen cylinder_example = screen_cylinder \<and>
   cylinder cylinder_example = [1, 2, 3, 1, 0, 0, 2, 0, 1, pi / 2] \<and>
   ((1, 0, 0) :: vec3) \<noteq> (0, 0, 0) \<and> cos (pi / 2 / 2) \<noteq> 0 \<and>
   frameDraw cylinder_example (new_frame_data [0, 0, 0, 0, 0, 0]) unit_viewport =
      Inr ([glRotatef 90 0 1 0, glRotatef 90 0 0 (- 1), glTranslatef 1 2 3,
            glBegin GL_TRIANGLE_STRIP]
           @ concat (map (strip_vertices 2 0 1 2) [0 .. 1000])
           @ [glEnd])"
proof -
  from frameDraw_cylinder[OF cylinder_example_ok, of "new_frame_data [0, 0, 0, 0, 0, 0]" unit_viewport]
  have "frameDraw cylinder_example (new_frame_data [0, 0, 0, 0, 0, 0]) unit_viewport =
      Inr ([glRotatef 90 0 1 0, glRotatef 90 0 0 (- 1), glTranslatef 1 2 3,
            glBegin GL_TRIANGLE_STRIP]
           @ concat (map (strip_vertices 2 0 1 2) [0 .. 1000])
           @ [glEnd])"
    unfolding cylinder_example_values by simp
  then show ?thesis using cylinder_example_ok by simp
qed

lemma strip_no_transform:
  "filter is_transform (concat (map (strip_vertices r phi0 dphi h) is)) = []"
  by (induction "is") (simp_all add: strip_vertices_def Let_def)

text \<open>
  Claim C9 as stated fails: the transforms that \<^verbatim>\<open>frameDraw\<close> issues for a cylinder
  are three, and the first is a rotation by 90 degrees about \<open>(0, 1, 0)\<close> that the
  claim does not have.
\<close>

theorem frameDraw_cylinder_counterexample:
  "map_sum id (filter is_transform)
     (frameDraw cylinder_example (new_frame_data [0, 0, 0, 0, 0, 0]) unit_viewport) =
   Inr [glRotatef 90 0 1 0, glRotatef 90 0 0 (- 1), glTranslatef 1 2 3]"
  unfolding frameDraw_cylinder_calls[OF cylinder_example_ok, of "new_frame_data [0, 0, 0, 0, 0, 0]" unit_viewport]
    cylinder_example_values
  by (simp add: strip_no_transform)

end
